theory Spec2Isabelle
  imports Complex_Main "HOL-Library.AList"
begin

section \<open>The R720 fan controller (control.py)\<close>

text \<open>
  A shallow embedding of \<^verbatim>\<open>control.py\<close>: the sensor parser \<^verbatim>\<open>get_sensor_data\<close>, the
  usage sampler \<^verbatim>\<open>monitor_usage\<close>, the actuator wrappers \<^verbatim>\<open>run_ipmitool\<close> and
  \<^verbatim>\<open>set_fan_speed\<close>, and one iteration of the loop of \<^verbatim>\<open>main\<close>.

  Modelling decisions.
  \<^item> The module globals, and the two locals of \<^verbatim>\<open>main\<close> that survive from one
    iteration to the next (\<^verbatim>\<open>temp_trend\<close>, \<^verbatim>\<open>temp_rate\<close>), are the fields of one record
    that every operation takes and returns.
  \<^item> Everything the loop obtains from outside (the text printed by ipmitool, the
    clock, the return codes of the actuator) is an explicit input of the iteration.
  \<^item> Every exception that the code does not catch is a value \<open>Inl e\<close>; the loop of
    \<^verbatim>\<open>main\<close> has no handler, so such a value ends the process.
  \<^item> Python floats are modelled by \<open>real\<close>: rounding is not represented.
  \<^item> Python strings are modelled by \<open>string\<close>, with characters below 256 only.
  \<^item> The sampler thread writes its globals while the main loop runs; here one
    iteration of either loop is atomic, so an iteration of \<^verbatim>\<open>main\<close> reads one
    consistent snapshot of the sampler's globals.
  \<^item> Every external command is taken to start: the exceptions that \<^verbatim>\<open>subprocess\<close>
    raises when a program cannot be run at all (OSError) are not represented, and
    neither is the start-up code of \<^verbatim>\<open>main\<close> before its loop.
\<close>

subsection \<open>Exceptions\<close>

datatype exn = IndexError | ValueError | OverflowError | KeyError | UnboundLocalError

subsection \<open>String operations of Python used by the parser\<close>

text \<open>\<^verbatim>\<open>str.isspace\<close> on the code points below 256.\<close>

definition py_isspace :: "char \<Rightarrow> bool" where
  "py_isspace c = (c \<in> set [CHR 0x09, CHR 0x0A, CHR 0x0B, CHR 0x0C, CHR 0x0D,
     CHR 0x1C, CHR 0x1D, CHR 0x1E, CHR 0x1F, CHR 0x20, CHR 0x85, CHR 0xA0])"

text \<open>\<^verbatim>\<open>s.strip()\<close>\<close>

definition strip :: "string \<Rightarrow> string" where
  "strip s = rev (dropWhile py_isspace (rev (dropWhile py_isspace s)))"

text \<open>The line boundaries of \<^verbatim>\<open>str.splitlines\<close> other than \<^verbatim>\<open>\r\<close> (below 256).\<close>

definition is_linebreak :: "char \<Rightarrow> bool" where
  "is_linebreak c = (c \<in> set [CHR 0x0A, CHR 0x0B, CHR 0x0C, CHR 0x1C, CHR 0x1D, CHR 0x1E, CHR 0x85])"

text \<open>\<^verbatim>\<open>s.splitlines()\<close>: \<open>cur\<close> is the line read so far; \<^verbatim>\<open>\r\n\<close> is one boundary; a
  final boundary opens no further line.\<close>

fun splitlines_from :: "string \<Rightarrow> string \<Rightarrow> string list" where
  "splitlines_from cur [] = (if cur = [] then [] else [cur])"
| "splitlines_from cur (c # cs) =
     (if c = CHR 0x0D then
        (case cs of
           [] \<Rightarrow> [cur]
         | d # ds \<Rightarrow> if d = CHR 0x0A then cur # splitlines_from [] ds
                    else cur # splitlines_from [] (d # ds))
      else if is_linebreak c then cur # splitlines_from [] cs
      else splitlines_from (cur @ [c]) cs)"

definition splitlines :: "string \<Rightarrow> string list" where
  "splitlines s = splitlines_from [] s"

text \<open>\<^verbatim>\<open>s.split(sep)\<close> for a separator of one character: never the empty list.\<close>

fun split_on :: "char \<Rightarrow> string \<Rightarrow> string list" where
  "split_on sep [] = [[]]"
| "split_on sep (c # cs) =
     (if c = sep then [] # split_on sep cs
      else (case split_on sep cs of
              [] \<Rightarrow> [[c]]
            | p # ps \<Rightarrow> (c # p) # ps))"

text \<open>\<^verbatim>\<open>sub in s\<close> on strings.\<close>

fun starts_with :: "string \<Rightarrow> string \<Rightarrow> bool" where
  "starts_with [] s = True"
| "starts_with (p # ps) [] = False"
| "starts_with (p # ps) (c # cs) = (p = c \<and> starts_with ps cs)"

fun py_in :: "string \<Rightarrow> string \<Rightarrow> bool" where
  "py_in sub [] = (sub = [])"
| "py_in sub (c # cs) = (starts_with sub (c # cs) \<or> py_in sub cs)"

text \<open>\<^verbatim>\<open>xs[i]\<close> for \<open>i \<ge> 0\<close>.\<close>

definition item :: "'a list \<Rightarrow> nat \<Rightarrow> exn + 'a" where
  "item xs i = (if i < length xs then Inr (xs ! i) else Inl IndexError)"

subsection \<open>\<^verbatim>\<open>float(str)\<close> and \<^verbatim>\<open>int(float)\<close>\<close>

text \<open>
  A Python float: a finite number, an infinity or a NaN. The finite number is the
  exact decimal that was read; Python rounds it to the nearest double, and to an
  infinity beyond the largest one, which is not represented.
\<close>

datatype pyfloat = Fin real | Inf | NaN

definition is_digit :: "char \<Rightarrow> bool" where
  "is_digit c = (c \<in> set ''0123456789'')"

definition digit_val :: "char \<Rightarrow> nat" where
  "digit_val c = of_char c - 48"

definition digits_val :: "string \<Rightarrow> nat" where
  "digits_val ds = foldl (\<lambda>n c. 10 * n + digit_val c) 0 ds"

text \<open>The longest prefix \<^verbatim>\<open>digit (["_"] digit)*\<close>, its digits and the rest.\<close>

fun digitpart :: "string \<Rightarrow> string \<Rightarrow> string \<times> string" where
  "digitpart acc [] = (acc, [])"
| "digitpart acc (c # cs) =
     (if is_digit c then digitpart (acc @ [c]) cs
      else if c = CHR ''_'' \<and> acc \<noteq> [] \<and> cs \<noteq> [] \<and> is_digit (hd cs) then digitpart acc cs
      else (acc, c # cs))"

text \<open>An optional sign: whether it is a minus, and the rest.\<close>

definition take_sign :: "string \<Rightarrow> bool \<times> string" where
  "take_sign s =
     (case s of
        [] \<Rightarrow> (False, [])
      | c # cs \<Rightarrow> if c = CHR ''-'' then (True, cs)
                 else if c = CHR ''+'' then (False, cs)
                 else (False, c # cs))"

text \<open>Equality up to the case of the letters, \<open>lo\<close> and \<open>up\<close> being the two spellings.\<close>

definition ci_eq :: "string \<Rightarrow> string \<Rightarrow> string \<Rightarrow> bool" where
  "ci_eq lo up s = list_all2 (\<lambda>c lu. c = fst lu \<or> c = snd lu) s (zip lo up)"

text \<open>
  \<^verbatim>\<open>float(s)\<close>, after the grammar of the language reference: surrounding white space,
  an optional sign, then \<^verbatim>\<open>inf\<close>, \<^verbatim>\<open>infinity\<close> or \<^verbatim>\<open>nan\<close> in any case, or a decimal
  number with an optional exponent. Anything else raises ValueError.
\<close>

definition py_float :: "string \<Rightarrow> exn + pyfloat" where
  "py_float s =
     (let (neg, u) = take_sign (strip s) in
      if ci_eq ''inf'' ''INF'' u \<or> ci_eq ''infinity'' ''INFINITY'' u then Inr Inf
      else if ci_eq ''nan'' ''NAN'' u then Inr NaN
      else
        let (ip, r1) = digitpart [] u;
            (dot, r2) = (case r1 of [] \<Rightarrow> (False, [])
                         | c # cs \<Rightarrow> if c = CHR ''.'' then (True, cs) else (False, c # cs));
            (fp, r3) = (if dot then digitpart [] r2 else ([], r2));
            m = real (digits_val ip) + real (digits_val fp) / 10 ^ length fp;
            sg = (if neg then - 1 else 1)
        in if ip = [] \<and> fp = [] then Inl ValueError
           else (case r3 of
                   [] \<Rightarrow> Inr (Fin (sg * m))
                 | c # cs \<Rightarrow>
                     if c = CHR ''e'' \<or> c = CHR ''E'' then
                       (let (eneg, r4) = take_sign cs;
                            (ed, r5) = digitpart [] r4
                        in if ed = [] \<or> r5 \<noteq> [] then Inl ValueError
                           else if eneg then Inr (Fin (sg * m / 10 ^ digits_val ed))
                           else Inr (Fin (sg * m * 10 ^ digits_val ed)))
                     else Inl ValueError))"

text \<open>\<^verbatim>\<open>int(x)\<close> on a float: truncation towards zero; an infinity raises OverflowError,
  a NaN raises ValueError.\<close>

definition py_int :: "pyfloat \<Rightarrow> exn + int" where
  "py_int x =
     (case x of
        Fin r \<Rightarrow> Inr (if 0 \<le> r then \<lfloor>r\<rfloor> else \<lceil>r\<rceil>)
      | Inf \<Rightarrow> Inl OverflowError
      | NaN \<Rightarrow> Inl ValueError)"

subsection \<open>\<^verbatim>\<open>get_sensor_data\<close>\<close>

text \<open>What a command run through \<^verbatim>\<open>subprocess.check_output\<close> gives: its output, or
  the exception CalledProcessError for a non-zero return code.\<close>

datatype cmd_out = Output string | CalledProcessError

text \<open>The dictionary \<^verbatim>\<open>temps\<close>, keys in the order of their insertion.\<close>

type_synonym temps = "(string \<times> int) list"

text \<open>The statement \<^verbatim>\<open>temps[key] = int(float(parts[1]))\<close>.\<close>

definition store_reading :: "string \<Rightarrow> string list \<Rightarrow> temps \<Rightarrow> exn + temps" where
  "store_reading key parts temps =
     (case item parts 1 of
        Inl e \<Rightarrow> Inl e
      | Inr p \<Rightarrow>
          (case py_float p of
             Inl e \<Rightarrow> Inl e
           | Inr x \<Rightarrow>
               (case py_int x of
                  Inl e \<Rightarrow> Inl e
                | Inr v \<Rightarrow> Inr (AList.update key v temps))))"

text \<open>The body of the loop over the lines; \<open>hd parts\<close> is \<^verbatim>\<open>parts[0]\<close>, which exists
  because \<^verbatim>\<open>split\<close> never returns the empty list.\<close>

definition sensor_line :: "string \<Rightarrow> temps \<Rightarrow> exn + temps" where
  "sensor_line line temps =
     (let parts = map strip (split_on CHR ''|'' line) in
      if py_in ''Inlet Temp'' (hd parts) then store_reading ''inlet'' parts temps
      else if py_in ''Exhaust Temp'' (hd parts) then store_reading ''exhaust'' parts temps
      else if hd parts = ''Temp'' \<and> map_of temps ''cpu1'' = None then store_reading ''cpu1'' parts temps
      else if hd parts = ''Temp'' then store_reading ''cpu2'' parts temps
      else Inr temps)"

fun sensor_lines :: "string list \<Rightarrow> temps \<Rightarrow> exn + temps" where
  "sensor_lines [] temps = Inr temps"
| "sensor_lines (line # rest) temps =
     (case sensor_line line temps of
        Inl e \<Rightarrow> Inl e
      | Inr temps' \<Rightarrow> sensor_lines rest temps')"

text \<open>\<^verbatim>\<open>get_sensor_data()\<close>: \<open>Inr None\<close> is the return value \<^verbatim>\<open>None\<close> of the handler of
  CalledProcessError, the only exception the function catches.\<close>

definition get_sensor_data :: "cmd_out \<Rightarrow> exn + temps option" where
  "get_sensor_data out =
     (case out of
        CalledProcessError \<Rightarrow> Inr None
      | Output text \<Rightarrow>
          (case sensor_lines (splitlines text) [] of
             Inl e \<Rightarrow> Inl e
           | Inr temps \<Rightarrow> Inr (Some temps)))"

subsection \<open>\<^verbatim>\<open>get_fan_rpm\<close>\<close>

text \<open>\<^verbatim>\<open>int(s)\<close> on a string: white space, an optional sign, digits with single
  underscores between them.\<close>

definition py_int_str :: "string \<Rightarrow> exn + int" where
  "py_int_str s =
     (let (neg, u) = take_sign (strip s);
          (ds, r) = digitpart [] u
      in if ds = [] \<or> r \<noteq> [] then Inl ValueError
         else Inr (if neg then - int (digits_val ds) else int (digits_val ds)))"

definition get_fan_rpm :: "cmd_out \<Rightarrow> exn + int" where
  "get_fan_rpm out =
     (case out of
        CalledProcessError \<Rightarrow> Inr 0
      | Output text \<Rightarrow> py_int_str (strip text))"

subsection \<open>\<^verbatim>\<open>run_ipmitool\<close> and \<^verbatim>\<open>set_fan_speed\<close>\<close>

text \<open>One run of ipmitool: return code zero, another return code, or the exception
  SubprocessError, which \<^verbatim>\<open>run_ipmitool\<close> catches.\<close>

datatype attempt = Rc0 | RcFail | SubprocessError

text \<open>The loop \<^verbatim>\<open>for attempt in range(retries)\<close>: \<open>k\<close> is the number of the attempt,
  \<open>n\<close> the attempts left, \<open>env cmd k\<close> what the \<open>k\<close>-th run of \<open>cmd\<close> gives.\<close>

fun ipmi_attempts :: "(string \<Rightarrow> nat \<Rightarrow> attempt) \<Rightarrow> string \<Rightarrow> nat \<Rightarrow> nat \<Rightarrow> bool" where
  "ipmi_attempts env cmd k 0 = False"
| "ipmi_attempts env cmd k (Suc n) =
     (case env cmd k of
        Rc0 \<Rightarrow> True
      | RcFail \<Rightarrow> ipmi_attempts env cmd (Suc k) n
      | SubprocessError \<Rightarrow> ipmi_attempts env cmd (Suc k) n)"

definition run_ipmitool :: "(string \<Rightarrow> nat \<Rightarrow> attempt) \<Rightarrow> string \<Rightarrow> bool" where
  "run_ipmitool env cmd = ipmi_attempts env cmd 0 3"

definition hex_speed :: "int \<Rightarrow> string" where
  "hex_speed speed =
     (if speed = 25 then ''0x19''
      else if speed = 40 then ''0x28''
      else if speed = 60 then ''0x3c''
      else if speed = 80 then ''0x50''
      else if speed = 100 then ''0x64''
      else ''0x19'')"

definition set_fan_speed :: "(string \<Rightarrow> nat \<Rightarrow> attempt) \<Rightarrow> int \<Rightarrow> bool" where
  "set_fan_speed env speed = run_ipmitool env (''raw 0x30 0x30 0x02 0xff '' @ hex_speed speed)"

subsection \<open>The state\<close>

text \<open>The text of \<^verbatim>\<open>reason\<close>, by the branch that built it and the number it carries;
  \<open>NoReason\<close> is the empty string.\<close>

datatype reason =
    NoReason
  | ExtremeSpike real | LargeSpike real | ModerateSpike real | SmallSpike real
  | HighTemp int | ModerateTemp int | SustainedTemp int | IdleTemp int
  | FastRise real | LowTemp int

datatype trend = Rising | Stable | Falling

record trigger =
  t_usage :: real
  t_temp :: int
  t_time :: real
  t_reason :: reason

text \<open>The globals of the module, then the two locals of \<^verbatim>\<open>main\<close> that are assigned
  only when a sensor read succeeds (\<open>None\<close>: not yet assigned).\<close>

record state =
  usage :: real
  usage_avg :: real
  spike_detected :: bool
  spike_size :: real
  max_temp :: int
  last_max_temp :: int
  current_speed :: int
  cooldown_end :: real
  drop_delay_start :: real
  last_trigger :: trigger
  usage_window :: "real list"
  temp_window :: "int list"
  last_usage :: real
  temp_trend :: "trend option"
  temp_rate :: "real option"

definition HOLD_TIME :: real where
  "HOLD_TIME = 30"

definition DROP_DELAY :: real where
  "DROP_DELAY = 30"

definition init :: state where
  "init = \<lparr>usage = 0, usage_avg = 0, spike_detected = False, spike_size = 0,
     max_temp = 25, last_max_temp = 25, current_speed = 25, cooldown_end = 0,
     drop_delay_start = 0,
     last_trigger = \<lparr>t_usage = 0, t_temp = 0, t_time = 0, t_reason = NoReason\<rparr>,
     usage_window = [], temp_window = [], last_usage = 0,
     temp_trend = None, temp_rate = None\<rparr>"

text \<open>\<^verbatim>\<open>deque(maxlen=25).append(x)\<close>\<close>

definition dq_append :: "'a \<Rightarrow> 'a list \<Rightarrow> 'a list" where
  "dq_append x w = (if length w \<ge> 25 then tl w @ [x] else w @ [x])"

subsection \<open>\<^verbatim>\<open>monitor_usage\<close>: one iteration of the sampler\<close>

text \<open>\<open>u\<close> is the value of \<^verbatim>\<open>psutil.cpu_percent(interval=0.2)\<close>.\<close>

definition monitor_usage :: "real \<Rightarrow> state \<Rightarrow> state" where
  "monitor_usage u s =
     (let w = dq_append u (usage_window s);
          avg = (if w \<noteq> [] then sum_list w / real (length w) else u);
          sz = u - usage s
      in s\<lparr>last_usage := usage s, usage := u, usage_window := w, usage_avg := avg,
           spike_size := sz, spike_detected := (sz > 5)\<rparr>)"

subsection \<open>\<^verbatim>\<open>main\<close>: one iteration of the control loop\<close>

text \<open>What one iteration obtains from outside: the result of the sensor command,
  \<^verbatim>\<open>time.time()\<close>, the outcome of each run of ipmitool for a raw command, and
  the results of the two calls of the fan RPM command (the one in the log line, the
  one in the arguments of \<^verbatim>\<open>notify\<close>).\<close>

record tick_in =
  in_sensor :: cmd_out
  in_now :: real
  in_ipmi :: "string \<Rightarrow> nat \<Rightarrow> attempt"
  in_rpm1 :: cmd_out
  in_rpm2 :: cmd_out

text \<open>What one iteration does to the outside: calls of \<^verbatim>\<open>set_fan_speed\<close> and of
  \<^verbatim>\<open>notify\<close> (with its direction, speed, RPM and reason).\<close>

datatype direction = Increased | Decreased

datatype event = SetFanSpeed int | Notify direction int int reason

text \<open>\<^verbatim>\<open>temps[key]\<close>\<close>

definition lookup_key :: "temps \<Rightarrow> string \<Rightarrow> exn + int" where
  "lookup_key temps key = (case map_of temps key of None \<Rightarrow> Inl KeyError | Some v \<Rightarrow> Inr v)"

text \<open>The body of \<^verbatim>\<open>if temps:\<close> (lines 155 to 160).\<close>

definition update_temps :: "temps \<Rightarrow> state \<Rightarrow> exn + state" where
  "update_temps temps s =
     (case lookup_key temps ''inlet'' of
        Inl e \<Rightarrow> Inl e
      | Inr a \<Rightarrow>
     (case lookup_key temps ''exhaust'' of
        Inl e \<Rightarrow> Inl e
      | Inr b \<Rightarrow>
     (case lookup_key temps ''cpu1'' of
        Inl e \<Rightarrow> Inl e
      | Inr c \<Rightarrow>
     (case lookup_key temps ''cpu2'' of
        Inl e \<Rightarrow> Inl e
      | Inr d \<Rightarrow>
          (let mt = max (max (max a b) c) d;
               w = dq_append mt (temp_window s);
               tr = (if length w > 1 \<and> mt > last_max_temp s then Rising
                     else if mt = last_max_temp s then Stable
                     else Falling);
               rate = (if length w \<ge> 5
                       then real_of_int (mt - min_list (drop (length w - 5) w)) / 5
                       else 0)
           in Inr (s\<lparr>max_temp := mt, temp_window := w, temp_trend := Some tr,
                     temp_rate := Some rate, last_max_temp := mt\<rparr>))))))"

text \<open>Lines 153 to 160: \<^verbatim>\<open>None\<close> and the empty dictionary are both false.\<close>

definition read_temps :: "tick_in \<Rightarrow> state \<Rightarrow> exn + state" where
  "read_temps inp s =
     (case get_sensor_data (in_sensor inp) of
        Inl e \<Rightarrow> Inl e
      | Inr None \<Rightarrow> Inr s
      | Inr (Some temps) \<Rightarrow> if temps \<noteq> [] then update_temps temps s else Inr s)"

text \<open>Lines 166 to 206, the decision: the proposed speed and its reason. The local
  \<^verbatim>\<open>temp_rate\<close> is read in one branch only, and reading it before it was ever
  assigned raises UnboundLocalError.\<close>

definition propose :: "bool \<Rightarrow> real \<Rightarrow> int \<Rightarrow> real option \<Rightarrow> nat \<Rightarrow> exn + int \<times> reason" where
  "propose spike sz mt rate wlen =
     (if spike then
        (if sz > 25 then Inr (100, ExtremeSpike sz)
         else if sz > 15 then Inr (80, LargeSpike sz)
         else if sz > 10 then Inr (60, ModerateSpike sz)
         else Inr (40, SmallSpike sz))
      else
        (if mt \<ge> 50 then Inr (100, HighTemp mt)
         else if mt \<ge> 45 then Inr (80, ModerateTemp mt)
         else if mt \<ge> 40 then Inr (60, SustainedTemp mt)
         else if mt \<ge> 30 then Inr (40, IdleTemp mt)
         else if wlen \<ge> 5 then
           (case rate of
              None \<Rightarrow> Inl UnboundLocalError
            | Some r \<Rightarrow> if r > 0.5 then Inr (80, FastRise r) else Inr (25, LowTemp mt))
         else Inr (25, LowTemp mt)))"

text \<open>Lines 209 to 242, the speed logic: the calls made, and the new state unless an
  exception ended the iteration. \<^verbatim>\<open>get_fan_rpm()\<close> is called inside the log line that
  precedes the assignments, and again in the arguments of \<^verbatim>\<open>notify\<close>.\<close>

definition apply_speed :: "tick_in \<Rightarrow> int \<Rightarrow> reason \<Rightarrow> state \<Rightarrow> event list \<times> (exn + state)" where
  "apply_speed inp new_speed rsn s =
     (let now = in_now inp in
      if new_speed \<noteq> current_speed s then
        if new_speed > current_speed s \<or> (spike_detected s \<and> new_speed \<ge> current_speed s) then
          (if set_fan_speed (in_ipmi inp) new_speed then
             (case get_fan_rpm (in_rpm1 inp) of
                Inl e \<Rightarrow> ([SetFanSpeed new_speed], Inl e)
              | Inr rpm1 \<Rightarrow>
                  (let s1 = s\<lparr>current_speed := new_speed,
                              cooldown_end := now + HOLD_TIME,
                              drop_delay_start := 0,
                              last_trigger := \<lparr>t_usage = usage_avg s, t_temp = max_temp s,
                                               t_time = now, t_reason = rsn\<rparr>\<rparr>
                   in case get_fan_rpm (in_rpm2 inp) of
                        Inl e \<Rightarrow> ([SetFanSpeed new_speed], Inl e)
                      | Inr rpm2 \<Rightarrow>
                          ([SetFanSpeed new_speed, Notify Increased new_speed rpm2 rsn],
                           Inr (s1\<lparr>spike_detected := False\<rparr>))))
           else ([SetFanSpeed new_speed], Inr (s\<lparr>spike_detected := False\<rparr>)))
        else
          (if drop_delay_start s = 0 then ([], Inr (s\<lparr>drop_delay_start := now\<rparr>))
           else if now - drop_delay_start s \<ge> DROP_DELAY \<and> now \<ge> cooldown_end s then
             (if set_fan_speed (in_ipmi inp) new_speed then
                (case get_fan_rpm (in_rpm1 inp) of
                   Inl e \<Rightarrow> ([SetFanSpeed new_speed], Inl e)
                 | Inr rpm1 \<Rightarrow>
                     (let s1 = s\<lparr>current_speed := new_speed,
                                 cooldown_end := now + HOLD_TIME,
                                 drop_delay_start := 0,
                                 last_trigger := \<lparr>t_usage = usage_avg s, t_temp = max_temp s,
                                                  t_time = now, t_reason = rsn\<rparr>\<rparr>
                      in case get_fan_rpm (in_rpm2 inp) of
                           Inl e \<Rightarrow> ([SetFanSpeed new_speed], Inl e)
                         | Inr rpm2 \<Rightarrow>
                             ([SetFanSpeed new_speed, Notify Decreased new_speed rpm2 rsn],
                              Inr s1)))
              else ([SetFanSpeed new_speed], Inr s))
           else ([], Inr s))
      else ([], Inr (s\<lparr>drop_delay_start := 0\<rparr>)))"

text \<open>Lines 153 to 244, one iteration of \<^verbatim>\<open>while running\<close>.\<close>

definition tick :: "tick_in \<Rightarrow> state \<Rightarrow> event list \<times> (exn + state)" where
  "tick inp s =
     (case read_temps inp s of
        Inl e \<Rightarrow> ([], Inl e)
      | Inr s1 \<Rightarrow>
          (case propose (spike_detected s1) (spike_size s1) (max_temp s1) (temp_rate s1)
                  (length (temp_window s1)) of
             Inl e \<Rightarrow> ([], Inl e)
           | Inr (new_speed, rsn) \<Rightarrow>
               (case apply_speed inp new_speed rsn s1 of
                  (evs, Inl e) \<Rightarrow> (evs, Inl e)
                | (evs, Inr s2) \<Rightarrow> (evs, Inr (s2\<lparr>spike_detected := False\<rparr>)))))"

text \<open>The proposal that an iteration computes, as an observation of \<open>tick\<close>.\<close>

definition proposal :: "tick_in \<Rightarrow> state \<Rightarrow> exn + int \<times> reason" where
  "proposal inp s =
     (case read_temps inp s of
        Inl e \<Rightarrow> Inl e
      | Inr s1 \<Rightarrow> propose (spike_detected s1) (spike_size s1) (max_temp s1) (temp_rate s1)
                    (length (temp_window s1)))"

text \<open>The four fields that the spec calls the controller state.\<close>

definition ctrl :: "state \<Rightarrow> int \<times> real \<times> real \<times> trigger" where
  "ctrl s = (current_speed s, cooldown_end s, drop_delay_start s, last_trigger s)"

subsection \<open>Runs\<close>

text \<open>A step of the process is an iteration of the sampler or of the control loop.\<close>

datatype step = Sample real | Tick tick_in

definition step_state :: "step \<Rightarrow> state \<Rightarrow> state option" where
  "step_state st s =
     (case st of
        Sample u \<Rightarrow> Some (monitor_usage u s)
      | Tick inp \<Rightarrow> (case snd (tick inp s) of Inl e \<Rightarrow> None | Inr s' \<Rightarrow> Some s'))"

text \<open>The state after a sequence of steps; \<open>None\<close> once an exception ended the process.\<close>

fun run :: "step list \<Rightarrow> state \<Rightarrow> state option" where
  "run [] s = Some s"
| "run (st # sts) s = (case step_state st s of None \<Rightarrow> None | Some s' \<Rightarrow> run sts s')"

definition reachable :: "state \<Rightarrow> bool" where
  "reachable s = (\<exists>sts. run sts init = Some s)"

subsection \<open>Observations of runs\<close>

text \<open>An iteration keeps a pending decrease pending: it proposes a speed below the
  current one, or a speed above it that the actuator fails to set.\<close>

definition kept_pending :: "tick_in \<Rightarrow> state \<Rightarrow> bool" where
  "kept_pending inp s =
     (case proposal inp s of
        Inl e \<Rightarrow> False
      | Inr (t, r) \<Rightarrow> t < current_speed s \<or> (current_speed s < t \<and> \<not> set_fan_speed (in_ipmi inp) t))"

text \<open>Every iteration of the control loop in a sequence of steps keeps the decrease
  pending, and none ends the process.\<close>

fun pending_run :: "step list \<Rightarrow> state \<Rightarrow> bool" where
  "pending_run [] s = True"
| "pending_run (Sample u # sts) s = pending_run sts (monitor_usage u s)"
| "pending_run (Tick inp # sts) s =
     (kept_pending inp s \<and>
      (case snd (tick inp s) of Inl e \<Rightarrow> False | Inr s' \<Rightarrow> pending_run sts s'))"

text \<open>A step that is not an iteration with some sensor readings: a sample, or an
  iteration whose read returned \<^verbatim>\<open>None\<close>.\<close>

fun failed_read :: "step \<Rightarrow> bool" where
  "failed_read (Sample u) = True"
| "failed_read (Tick inp) = (get_sensor_data (in_sensor inp) = Inr None)"

subsection \<open>Example inputs\<close>

text \<open>An iteration at time \<open>t\<close> whose sensor command fails, with a working actuator.\<close>

definition blind :: "real \<Rightarrow> tick_in" where
  "blind t = \<lparr>in_sensor = CalledProcessError, in_now = t, in_ipmi = (\<lambda>cmd k. Rc0),
     in_rpm1 = Output ''6500'', in_rpm2 = Output ''6500''\<rparr>"

text \<open>The same with an actuator that fails at every attempt.\<close>

definition stuck :: "real \<Rightarrow> tick_in" where
  "stuck t = \<lparr>in_sensor = CalledProcessError, in_now = t, in_ipmi = (\<lambda>cmd k. RcFail),
     in_rpm1 = Output ''6500'', in_rpm2 = Output ''6500''\<rparr>"

text \<open>A sensor table with the four rows, in the layout that ipmitool prints.\<close>

definition sensor_table :: "string \<Rightarrow> string \<Rightarrow> string \<Rightarrow> string \<Rightarrow> string" where
  "sensor_table a b c d =
     ''Inlet Temp       | '' @ a @ '' | degrees C  | ok'' @ [CHR 0x0A] @
     ''Exhaust Temp     | '' @ b @ '' | degrees C  | ok'' @ [CHR 0x0A] @
     ''Temp             | '' @ c @ '' | degrees C  | ok'' @ [CHR 0x0A] @
     ''Temp             | '' @ d @ '' | degrees C  | ok'' @ [CHR 0x0A]"

text \<open>An iteration at time \<open>t\<close> that reads the given sensor output.\<close>

definition seeing :: "real \<Rightarrow> string \<Rightarrow> tick_in" where
  "seeing t text = \<lparr>in_sensor = Output text, in_now = t, in_ipmi = (\<lambda>cmd k. Rc0),
     in_rpm1 = Output ''6500'', in_rpm2 = Output ''6500''\<rparr>"

text \<open>Four iterations, one second apart, that all read a maximum of 20 degrees.\<close>

definition four_reads :: "step list" where
  "four_reads =
     [Tick (seeing 1000 (sensor_table ''18.000'' ''20.000'' ''19.000'' ''19.000'')),
      Tick (seeing 1001 (sensor_table ''18.000'' ''20.000'' ''19.000'' ''19.000'')),
      Tick (seeing 1002 (sensor_table ''18.000'' ''20.000'' ''19.000'' ''19.000'')),
      Tick (seeing 1003 (sensor_table ''18.000'' ''20.000'' ''19.000'' ''19.000''))]"

text \<open>A fifth iteration that reads a maximum of 24 degrees.\<close>

definition rise_read :: tick_in where
  "rise_read = seeing 1004 (sensor_table ''18.000'' ''24.000'' ''19.000'' ''19.000'')"

section \<open>Properties\<close>

subsection \<open>Auxiliary facts about one iteration\<close>

lemma update_temps_frame:
  "update_temps temps s = Inr s1 \<Longrightarrow>
     ctrl s1 = ctrl s \<and> spike_detected s1 = spike_detected s \<and> spike_size s1 = spike_size s
     \<and> usage_avg s1 = usage_avg s"
  by (auto simp: update_temps_def ctrl_def Let_def split: sum.splits)

lemma read_temps_frame:
  "read_temps inp s = Inr s1 \<Longrightarrow>
     ctrl s1 = ctrl s \<and> spike_detected s1 = spike_detected s \<and> spike_size s1 = spike_size s
     \<and> usage_avg s1 = usage_avg s"
  by (auto simp: read_temps_def dest: update_temps_frame split: sum.splits option.splits if_splits)

lemma tick_via_proposal:
  assumes "proposal inp s = Inr (t, r)"
  shows "\<exists>s1. read_temps inp s = Inr s1 \<and> ctrl s1 = ctrl s \<and> spike_detected s1 = spike_detected s \<and>
     tick inp s = (case apply_speed inp t r s1 of
                     (evs, Inl e) \<Rightarrow> (evs, Inl e)
                   | (evs, Inr s2) \<Rightarrow> (evs, Inr (s2\<lparr>spike_detected := False\<rparr>)))"
proof -
  from assms obtain s1 where r: "read_temps inp s = Inr s1"
    and p: "propose (spike_detected s1) (spike_size s1) (max_temp s1) (temp_rate s1)
                    (length (temp_window s1)) = Inr (t, r)"
    by (auto simp: proposal_def split: sum.splits)
  from r have "ctrl s1 = ctrl s \<and> spike_detected s1 = spike_detected s"
    using read_temps_frame by blast
  moreover have "tick inp s = (case apply_speed inp t r s1 of
                     (evs, Inl e) \<Rightarrow> (evs, Inl e)
                   | (evs, Inr s2) \<Rightarrow> (evs, Inr (s2\<lparr>spike_detected := False\<rparr>)))"
    using r p by (simp add: tick_def)
  ultimately show ?thesis using r by blast
qed

lemma tick_no_proposal:
  "proposal inp s = Inl e \<Longrightarrow> tick inp s = ([], Inl e)"
  by (auto simp: proposal_def tick_def split: sum.splits)

lemma apply_speed_equal:
  "apply_speed inp (current_speed s) r s = ([], Inr (s\<lparr>drop_delay_start := 0\<rparr>))"
  by (simp add: apply_speed_def)

lemma apply_speed_increase:
  assumes "t > current_speed s"
  shows "\<exists>rest out. apply_speed inp t r s = (SetFanSpeed t # rest, out)"
  using assms by (auto simp: apply_speed_def Let_def split: sum.splits)

lemma ipmi_attempts_three:
  "ipmi_attempts env c 0 (Suc (Suc (Suc 0))) =
     (env c 0 = Rc0 \<or> env c (Suc 0) = Rc0 \<or> env c (Suc (Suc 0)) = Rc0)"
  by (cases "env c 0"; cases "env c (Suc 0)"; cases "env c (Suc (Suc 0))") simp_all

lemma set_fan_speed_iff:
  "set_fan_speed env v =
     (env (''raw 0x30 0x30 0x02 0xff '' @ hex_speed v) 0 = Rc0 \<or>
      env (''raw 0x30 0x30 0x02 0xff '' @ hex_speed v) 1 = Rc0 \<or>
      env (''raw 0x30 0x30 0x02 0xff '' @ hex_speed v) 2 = Rc0)"
  using ipmi_attempts_three [of env "''raw 0x30 0x30 0x02 0xff '' @ hex_speed v"]
  by (simp add: set_fan_speed_def run_ipmitool_def numeral_3_eq_3 numeral_2_eq_2)

lemma apply_speed_events:
  "SetFanSpeed v \<in> set (fst (apply_speed inp t r s)) \<Longrightarrow> v = t \<and> t \<noteq> current_speed s"
  by (auto simp: apply_speed_def Let_def split: sum.splits if_splits)

lemma apply_speed_failure:
  assumes "SetFanSpeed v \<in> set (fst (apply_speed inp t r s))"
    and "\<not> set_fan_speed (in_ipmi inp) v"
  shows "apply_speed inp t r s = ([SetFanSpeed v], Inr (s\<lparr>spike_detected := False\<rparr>))
       \<or> apply_speed inp t r s = ([SetFanSpeed v], Inr s)"
  using assms by (auto simp: apply_speed_def Let_def split: sum.splits if_splits)

lemma tick_events_proposal:
  assumes "SetFanSpeed v \<in> set (fst (tick inp s))"
  shows "\<exists>r. proposal inp s = Inr (v, r)"
proof (cases "proposal inp s")
  case (Inl e)
  with assms show ?thesis by (simp add: tick_no_proposal)
next
  case (Inr p)
  obtain t r where p: "p = (t, r)" by (cases p)
  from tick_via_proposal [of inp s t r] Inr p obtain s1 where
    t: "tick inp s = (case apply_speed inp t r s1 of
                     (evs, Inl e) \<Rightarrow> (evs, Inl e)
                   | (evs, Inr s2) \<Rightarrow> (evs, Inr (s2\<lparr>spike_detected := False\<rparr>)))"
    by auto
  have "fst (tick inp s) = fst (apply_speed inp t r s1)"
    unfolding t by (auto split: prod.splits sum.splits)
  with assms have "v = t" using apply_speed_events by metis
  with Inr p show ?thesis by simp
qed

lemma apply_speed_hold:
  assumes "t < current_speed s" "drop_delay_start s \<noteq> 0"
    "in_now inp - drop_delay_start s < DROP_DELAY"
  shows "apply_speed inp t r s = ([], Inr s)"
  using assms by (auto simp: apply_speed_def Let_def)

lemma apply_speed_timer:
  assumes "apply_speed inp t r s = (evs, Inr s')" "drop_delay_start s \<noteq> 0"
    "drop_delay_start s' \<noteq> drop_delay_start s"
  shows "drop_delay_start s' = 0 \<and>
     (t = current_speed s \<or>
      (SetFanSpeed t \<in> set evs \<and> set_fan_speed (in_ipmi inp) t \<and> current_speed s' = t \<and> t \<noteq> current_speed s))"
  using assms by (auto simp: apply_speed_def Let_def split: sum.splits if_splits)

lemma run_append:
  "run (xs @ ys) s = (case run xs s of None \<Rightarrow> None | Some s' \<Rightarrow> run ys s')"
  by (induction xs arbitrary: s) (auto split: option.splits)

lemma pending_run_append:
  "run xs s = Some s' \<Longrightarrow> pending_run (xs @ ys) s = (pending_run xs s \<and> pending_run ys s')"
proof (induction xs arbitrary: s)
  case Nil
  then show ?case by simp
next
  case (Cons st xs)
  then show ?case
    by (cases st) (auto simp: step_state_def split: option.splits sum.splits)
qed

lemma monitor_usage_frame:
  "ctrl (monitor_usage u s) = ctrl s \<and> temp_rate (monitor_usage u s) = temp_rate s
   \<and> max_temp (monitor_usage u s) = max_temp s \<and> temp_window (monitor_usage u s) = temp_window s
   \<and> last_max_temp (monitor_usage u s) = last_max_temp s"
  by (simp add: monitor_usage_def ctrl_def Let_def)

lemma apply_speed_decrease_guard:
  assumes "SetFanSpeed v \<in> set (fst (apply_speed inp t r s))" "v < current_speed s"
  shows "drop_delay_start s \<noteq> 0 \<and> in_now inp - drop_delay_start s \<ge> DROP_DELAY
         \<and> in_now inp \<ge> cooldown_end s"
  using assms by (auto simp: apply_speed_def Let_def split: sum.splits if_splits)

lemma tick_decrease_guard:
  assumes "SetFanSpeed v \<in> set (fst (tick inp s))" "v < current_speed s"
  shows "drop_delay_start s \<noteq> 0 \<and> in_now inp - drop_delay_start s \<ge> DROP_DELAY
         \<and> in_now inp \<ge> cooldown_end s"
proof -
  from tick_events_proposal [OF assms(1)] obtain r where p: "proposal inp s = Inr (v, r)" ..
  from tick_via_proposal [OF p] obtain s1 where
    c: "ctrl s1 = ctrl s" and
    t: "tick inp s = (case apply_speed inp v r s1 of
                     (evs, Inl e) \<Rightarrow> (evs, Inl e)
                   | (evs, Inr s2) \<Rightarrow> (evs, Inr (s2\<lparr>spike_detected := False\<rparr>)))"
    by blast
  have "fst (tick inp s) = fst (apply_speed inp v r s1)"
    unfolding t by (auto split: prod.splits sum.splits)
  with assms c have "SetFanSpeed v \<in> set (fst (apply_speed inp v r s1))" "v < current_speed s1"
    by (simp_all add: ctrl_def)
  from apply_speed_decrease_guard [OF this] c show ?thesis by (simp add: ctrl_def)
qed

lemma apply_speed_timer_cases:
  assumes "apply_speed inp t r s = (evs, Inr s')"
  shows "drop_delay_start s' = 0
       \<or> (drop_delay_start s = 0 \<and> drop_delay_start s' = in_now inp \<and> t < current_speed s)
       \<or> (drop_delay_start s \<noteq> 0 \<and> drop_delay_start s' = drop_delay_start s \<and>
          (t < current_speed s \<or> (current_speed s < t \<and> \<not> set_fan_speed (in_ipmi inp) t)))"
  using assms by (auto simp: apply_speed_def Let_def split: sum.splits if_splits)

lemma tick_timer_cases:
  assumes "snd (tick inp s) = Inr s'"
  shows "drop_delay_start s' = 0
       \<or> (drop_delay_start s = 0 \<and> drop_delay_start s' = in_now inp \<and> kept_pending inp s)
       \<or> (drop_delay_start s \<noteq> 0 \<and> drop_delay_start s' = drop_delay_start s \<and> kept_pending inp s)"
proof (cases "proposal inp s")
  case (Inl e)
  with assms show ?thesis by (simp add: tick_no_proposal)
next
  case (Inr p)
  obtain t r where p: "proposal inp s = Inr (t, r)" using Inr by (cases p) simp
  from tick_via_proposal [OF p] obtain s1 where
    c: "ctrl s1 = ctrl s" and
    t: "tick inp s = (case apply_speed inp t r s1 of
                     (evs, Inl e) \<Rightarrow> (evs, Inl e)
                   | (evs, Inr s2) \<Rightarrow> (evs, Inr (s2\<lparr>spike_detected := False\<rparr>)))"
    by blast
  from assms t obtain evs s2 where a: "apply_speed inp t r s1 = (evs, Inr s2)"
    and s2: "s' = s2\<lparr>spike_detected := False\<rparr>"
    by (auto split: prod.splits sum.splits)
  from apply_speed_timer_cases [OF a] c s2 p show ?thesis
    by (auto simp: ctrl_def kept_pending_def)
qed

lemma pending_history:
  assumes "run sts s0 = Some s" and "drop_delay_start s0 = 0" and "drop_delay_start s \<noteq> 0"
  shows "\<exists>pre inp0 post sp. sts = pre @ Tick inp0 # post \<and> run pre s0 = Some sp \<and>
           drop_delay_start sp = 0 \<and> in_now inp0 = drop_delay_start s \<and>
           pending_run (Tick inp0 # post) sp"
  using assms
proof (induction sts arbitrary: s rule: rev_induct)
  case Nil
  then show ?case by simp
next
  case (snoc st sts)
  from snoc.prems(1) obtain sm where m: "run sts s0 = Some sm" and st: "step_state st sm = Some s"
    by (auto simp: run_append split: option.splits)
  have ih: "\<exists>pre inp0 post sp. sts = pre @ Tick inp0 # post \<and> run pre s0 = Some sp \<and>
           drop_delay_start sp = 0 \<and> in_now inp0 = drop_delay_start sm \<and>
           pending_run (Tick inp0 # post) sp" if "drop_delay_start sm \<noteq> 0"
    using snoc.IH [OF m snoc.prems(2) that] .
  have ext: ?case
    if same: "drop_delay_start sm \<noteq> 0" "drop_delay_start s = drop_delay_start sm"
      and keep: "pending_run [st] sm"
  proof -
    from ih [OF same(1)] obtain pre inp0 post sp where
      h: "sts = pre @ Tick inp0 # post" "run pre s0 = Some sp" "drop_delay_start sp = 0"
         "in_now inp0 = drop_delay_start sm" "pending_run (Tick inp0 # post) sp"
      by blast
    from m h(1,2) have r: "run (Tick inp0 # post) sp = Some sm"
      by (simp add: run_append)
    have "pending_run ((Tick inp0 # post) @ [st]) sp"
      using pending_run_append [OF r] h(5) keep by simp
    with h same show ?thesis
      by (intro exI [of _ pre] exI [of _ inp0] exI [of _ "post @ [st]"] exI [of _ sp]) simp
  qed
  show ?case
  proof (cases st)
    case (Sample u)
    with st have s: "s = monitor_usage u sm" by (simp add: step_state_def)
    with monitor_usage_frame [of u sm] have d: "drop_delay_start s = drop_delay_start sm"
      by (simp add: ctrl_def)
    with snoc.prems(3) have "drop_delay_start sm \<noteq> 0" by simp
    from ext [OF this d] Sample show ?thesis by simp
  next
    case (Tick inp)
    with st have t: "snd (tick inp sm) = Inr s"
      by (auto simp: step_state_def split: sum.splits)
    from tick_timer_cases [OF t] snoc.prems(3)
    consider (start) "drop_delay_start sm = 0" "drop_delay_start s = in_now inp" "kept_pending inp sm"
      | (keep) "drop_delay_start sm \<noteq> 0" "drop_delay_start s = drop_delay_start sm" "kept_pending inp sm"
      by blast
    then show ?thesis
    proof cases
      case start
      with m t Tick show ?thesis
        by (intro exI [of _ sts] exI [of _ inp] exI [of _ "[]"] exI [of _ sm]) simp
    next
      case keep
      have "pending_run [st] sm" using keep(3) t Tick by simp
      from ext [OF keep(1,2) this] show ?thesis .
    qed
  qed
qed

lemma init_timer: "drop_delay_start init = 0"
  by (simp add: init_def)

lemma apply_speed_cooldown:
  assumes "apply_speed inp t r s = (evs, Inr s')"
  shows "cooldown_end s' = cooldown_end s \<or> cooldown_end s' = in_now inp + HOLD_TIME"
  using assms by (auto simp: apply_speed_def Let_def split: sum.splits if_splits)

lemma apply_speed_change:
  assumes "apply_speed inp t r s = (evs, Inr s')"
  shows "(current_speed s' \<noteq> current_speed s \<longrightarrow>
            cooldown_end s' = in_now inp + HOLD_TIME \<and> SetFanSpeed (current_speed s') \<in> set evs)
       \<and> (current_speed s' = current_speed s \<longrightarrow> cooldown_end s' = cooldown_end s)"
  using assms by (auto simp: apply_speed_def Let_def split: sum.splits if_splits)

lemma tick_change:
  assumes "tick inp s = (evs, Inr s')"
  shows "(current_speed s' \<noteq> current_speed s \<longrightarrow>
            cooldown_end s' = in_now inp + HOLD_TIME \<and> SetFanSpeed (current_speed s') \<in> set evs)
       \<and> (current_speed s' = current_speed s \<longrightarrow> cooldown_end s' = cooldown_end s)"
proof (cases "proposal inp s")
  case (Inl e)
  with assms show ?thesis by (simp add: tick_no_proposal)
next
  case (Inr p)
  obtain t r where p: "proposal inp s = Inr (t, r)" using Inr by (cases p) simp
  from tick_via_proposal [OF p] obtain s1 where
    c: "ctrl s1 = ctrl s" and
    t: "tick inp s = (case apply_speed inp t r s1 of
                     (evs, Inl e) \<Rightarrow> (evs, Inl e)
                   | (evs, Inr s2) \<Rightarrow> (evs, Inr (s2\<lparr>spike_detected := False\<rparr>)))"
    by blast
  from assms t obtain s2 where a: "apply_speed inp t r s1 = (evs, Inr s2)"
    and s2: "s' = s2\<lparr>spike_detected := False\<rparr>"
    by (auto split: prod.splits sum.splits)
  from apply_speed_change [OF a] c s2 show ?thesis
    by (auto simp: ctrl_def)
qed

lemma step_cooldown:
  assumes "step_state st s = Some s'"
  shows "cooldown_end s' = cooldown_end s
       \<or> (\<exists>inp. st = Tick inp \<and> current_speed s' \<noteq> current_speed s \<and>
             cooldown_end s' = in_now inp + HOLD_TIME)"
proof (cases st)
  case (Sample u)
  with assms monitor_usage_frame [of u s] show ?thesis
    by (auto simp: step_state_def ctrl_def)
next
  case (Tick inp)
  with assms obtain evs where "tick inp s = (evs, Inr s')"
    by (cases "tick inp s") (auto simp: step_state_def split: sum.splits)
  from tick_change [OF this] Tick show ?thesis by auto
qed

lemma run_cooldown:
  assumes "run sts s = Some s'"
  shows "cooldown_end s' = cooldown_end s
       \<or> (\<exists>inp. Tick inp \<in> set sts \<and> cooldown_end s' = in_now inp + HOLD_TIME)"
  using assms
proof (induction sts arbitrary: s)
  case Nil
  then show ?case by simp
next
  case (Cons st sts)
  from Cons.prems obtain sm where a: "step_state st s = Some sm" and b: "run sts sm = Some s'"
    by (auto split: option.splits)
  from Cons.IH [OF b] step_cooldown [OF a] show ?case by auto
qed

subsection \<open>Auxiliary facts about the temperature update and about runs\<close>

lemma dq_append_length: "Suc 0 < length (dq_append x w) \<longleftrightarrow> w \<noteq> []"
  by (cases w) (auto simp: dq_append_def)

lemma update_temps_Inr:
  assumes "update_temps temps s = Inr s'"
  obtains mt where
    "s' = s\<lparr>max_temp := mt,
            temp_window := dq_append mt (temp_window s),
            temp_trend := Some (if length (dq_append mt (temp_window s)) > 1 \<and> mt > last_max_temp s
                                then Rising
                                else if mt = last_max_temp s then Stable else Falling),
            temp_rate := Some (if length (dq_append mt (temp_window s)) \<ge> 5
                               then real_of_int (mt - min_list (drop (length (dq_append mt (temp_window s)) - 5)
                                                                  (dq_append mt (temp_window s)))) / 5
                               else 0),
            last_max_temp := mt\<rparr>"
proof -
  obtain a where a: "lookup_key temps ''inlet'' = Inr a"
    using assms by (cases "lookup_key temps ''inlet''") (simp_all add: update_temps_def)
  obtain b where b: "lookup_key temps ''exhaust'' = Inr b"
    using assms a by (cases "lookup_key temps ''exhaust''") (simp_all add: update_temps_def)
  obtain c where c: "lookup_key temps ''cpu1'' = Inr c"
    using assms a b by (cases "lookup_key temps ''cpu1''") (simp_all add: update_temps_def)
  obtain d where d: "lookup_key temps ''cpu2'' = Inr d"
    using assms a b c by (cases "lookup_key temps ''cpu2''") (simp_all add: update_temps_def)
  define mt where "mt = max (max (max a b) c) d"
  have "update_temps temps s = Inr (s\<lparr>max_temp := mt,
            temp_window := dq_append mt (temp_window s),
            temp_trend := Some (if length (dq_append mt (temp_window s)) > 1 \<and> mt > last_max_temp s
                                then Rising
                                else if mt = last_max_temp s then Stable else Falling),
            temp_rate := Some (if length (dq_append mt (temp_window s)) \<ge> 5
                               then real_of_int (mt - min_list (drop (length (dq_append mt (temp_window s)) - 5)
                                                                  (dq_append mt (temp_window s)))) / 5
                               else 0),
            last_max_temp := mt\<rparr>)"
    by (simp only: update_temps_def a b c d sum.case Let_def mt_def)
  with assms show thesis using that [of mt] by (simp only: sum.inject)
qed

lemma update_temps_trend:
  assumes "update_temps temps s = Inr s'"
  shows "temp_trend s' = Some (if temp_window s \<noteq> [] \<and> max_temp s' > last_max_temp s then Rising
                               else if max_temp s' = last_max_temp s then Stable
                               else Falling)"
proof -
  from assms obtain mt where s': "s' = s\<lparr>max_temp := mt,
            temp_window := dq_append mt (temp_window s),
            temp_trend := Some (if length (dq_append mt (temp_window s)) > 1 \<and> mt > last_max_temp s
                                then Rising
                                else if mt = last_max_temp s then Stable else Falling),
            temp_rate := Some (if length (dq_append mt (temp_window s)) \<ge> 5
                               then real_of_int (mt - min_list (drop (length (dq_append mt (temp_window s)) - 5)
                                                                  (dq_append mt (temp_window s)))) / 5
                               else 0),
            last_max_temp := mt\<rparr>"
    by (rule update_temps_Inr)
  show ?thesis unfolding s' by (simp add: dq_append_length)
qed

lemma update_temps_rate:
  assumes "update_temps temps s = Inr s'"
  shows "temp_rate s' = Some (if length (temp_window s') \<ge> 5
            then real_of_int (max_temp s' - min_list (drop (length (temp_window s') - 5) (temp_window s'))) / 5
            else 0)
       \<and> last_max_temp s' = max_temp s'"
proof -
  from assms obtain mt where s': "s' = s\<lparr>max_temp := mt,
            temp_window := dq_append mt (temp_window s),
            temp_trend := Some (if length (dq_append mt (temp_window s)) > 1 \<and> mt > last_max_temp s
                                then Rising
                                else if mt = last_max_temp s then Stable else Falling),
            temp_rate := Some (if length (dq_append mt (temp_window s)) \<ge> 5
                               then real_of_int (mt - min_list (drop (length (dq_append mt (temp_window s)) - 5)
                                                                  (dq_append mt (temp_window s)))) / 5
                               else 0),
            last_max_temp := mt\<rparr>"
    by (rule update_temps_Inr)
  show ?thesis unfolding s' by simp
qed

lemma apply_speed_temps:
  assumes "apply_speed inp t r s = (evs, Inr s')"
  shows "max_temp s' = max_temp s \<and> last_max_temp s' = last_max_temp s \<and>
         temp_window s' = temp_window s \<and> temp_rate s' = temp_rate s \<and> temp_trend s' = temp_trend s"
  using assms by (auto simp: apply_speed_def Let_def split: sum.splits if_splits)

lemma tick_temps:
  assumes "snd (tick inp s) = Inr s'"
  shows "\<exists>s1. read_temps inp s = Inr s1 \<and> max_temp s' = max_temp s1 \<and>
           last_max_temp s' = last_max_temp s1 \<and> temp_window s' = temp_window s1 \<and>
           temp_rate s' = temp_rate s1 \<and> temp_trend s' = temp_trend s1"
proof (cases "proposal inp s")
  case (Inl e)
  with assms show ?thesis by (simp add: tick_no_proposal)
next
  case (Inr p)
  obtain t r where p: "proposal inp s = Inr (t, r)" using Inr by (cases p) simp
  from tick_via_proposal [OF p] obtain s1 where
    rd: "read_temps inp s = Inr s1" and
    t: "tick inp s = (case apply_speed inp t r s1 of
                     (evs, Inl e) \<Rightarrow> (evs, Inl e)
                   | (evs, Inr s2) \<Rightarrow> (evs, Inr (s2\<lparr>spike_detected := False\<rparr>)))"
    by blast
  from assms t obtain evs s2 where a: "apply_speed inp t r s1 = (evs, Inr s2)"
    and s2: "s' = s2\<lparr>spike_detected := False\<rparr>"
    by (auto split: prod.splits sum.splits)
  from apply_speed_temps [OF a] rd s2 show ?thesis by simp
qed

lemma read_temps_last_max:
  assumes "read_temps inp s = Inr s1" "last_max_temp s = max_temp s"
  shows "last_max_temp s1 = max_temp s1"
  using assms
  by (auto simp: read_temps_def dest: update_temps_rate split: sum.splits option.splits if_splits)

lemma step_last_max:
  assumes "step_state st s = Some s'" "last_max_temp s = max_temp s"
  shows "last_max_temp s' = max_temp s'"
proof (cases st)
  case (Sample u)
  with assms monitor_usage_frame [of u s] show ?thesis by (auto simp: step_state_def)
next
  case (Tick inp)
  with assms have "snd (tick inp s) = Inr s'"
    by (auto simp: step_state_def split: sum.splits)
  from tick_temps [OF this] read_temps_last_max assms(2) show ?thesis by auto
qed

lemma run_last_max:
  assumes "run sts s = Some s'" "last_max_temp s = max_temp s"
  shows "last_max_temp s' = max_temp s'"
  using assms
proof (induction sts arbitrary: s)
  case Nil
  then show ?case by simp
next
  case (Cons st sts)
  from Cons.prems obtain sm where a: "step_state st s = Some sm" and b: "run sts sm = Some s'"
    by (auto split: option.splits)
  from Cons.IH [OF b step_last_max [OF a Cons.prems(2)]] show ?case .
qed

lemma reachable_last_max: "reachable s \<Longrightarrow> last_max_temp s = max_temp s"
  unfolding reachable_def using run_last_max [of _ init s] by (auto simp: init_def)

lemma failed_step_temps:
  assumes "step_state st s = Some s'" "failed_read st"
  shows "temp_rate s' = temp_rate s \<and> max_temp s' = max_temp s \<and> temp_window s' = temp_window s"
proof (cases st)
  case (Sample u)
  with assms monitor_usage_frame [of u s] show ?thesis by (auto simp: step_state_def)
next
  case (Tick inp)
  with assms have t: "snd (tick inp s) = Inr s'" and f: "get_sensor_data (in_sensor inp) = Inr None"
    by (auto simp: step_state_def split: sum.splits)
  from f have "read_temps inp s = Inr s" by (simp add: read_temps_def)
  with tick_temps [OF t] show ?thesis by auto
qed

lemma failed_run_temps:
  assumes "run sts s = Some s'" "\<forall>st \<in> set sts. failed_read st"
  shows "temp_rate s' = temp_rate s \<and> max_temp s' = max_temp s \<and> temp_window s' = temp_window s"
  using assms
proof (induction sts arbitrary: s)
  case Nil
  then show ?case by simp
next
  case (Cons st sts)
  from Cons.prems obtain sm where a: "step_state st s = Some sm" and b: "run sts sm = Some s'"
    by (auto split: option.splits)
  from Cons.prems(2) have f: "failed_read st" "\<forall>x \<in> set sts. failed_read x" by simp_all
  from Cons.IH [OF b f(2)] failed_step_temps [OF a f(1)] show ?case by simp
qed

lemma read_temps_rate_bound:
  assumes "read_temps inp s = Inr s1" "temp_window s \<noteq> [] \<longrightarrow> temp_rate s \<noteq> None"
  shows "temp_window s1 \<noteq> [] \<longrightarrow> temp_rate s1 \<noteq> None"
  using assms
  by (auto simp: read_temps_def dest: update_temps_rate split: sum.splits option.splits if_splits)

lemma step_rate_bound:
  assumes "step_state st s = Some s'" "temp_window s \<noteq> [] \<longrightarrow> temp_rate s \<noteq> None"
  shows "temp_window s' \<noteq> [] \<longrightarrow> temp_rate s' \<noteq> None"
proof (cases st)
  case (Sample u)
  with assms monitor_usage_frame [of u s] show ?thesis by (auto simp: step_state_def)
next
  case (Tick inp)
  with assms have "snd (tick inp s) = Inr s'"
    by (auto simp: step_state_def split: sum.splits)
  from tick_temps [OF this] obtain s1 where
    r: "read_temps inp s = Inr s1" and e: "temp_window s' = temp_window s1" "temp_rate s' = temp_rate s1"
    by blast
  from read_temps_rate_bound [OF r assms(2)] e show ?thesis by simp
qed

lemma run_rate_bound:
  assumes "run sts s = Some s'" "temp_window s \<noteq> [] \<longrightarrow> temp_rate s \<noteq> None"
  shows "temp_window s' \<noteq> [] \<longrightarrow> temp_rate s' \<noteq> None"
  using assms
proof (induction sts arbitrary: s)
  case Nil
  then show ?case by simp
next
  case (Cons st sts)
  from Cons.prems obtain sm where a: "step_state st s = Some sm" and b: "run sts sm = Some s'"
    by (auto split: option.splits)
  from Cons.IH [OF b step_rate_bound [OF a Cons.prems(2)]] show ?case .
qed

lemma reachable_rate_bound: "reachable s \<Longrightarrow> temp_window s \<noteq> [] \<longrightarrow> temp_rate s \<noteq> None"
  unfolding reachable_def using run_rate_bound [of _ init s] by (auto simp: init_def)

lemma propose_unbound_short:
  "wlen < 5 \<Longrightarrow> propose spike sz mt None wlen = propose spike sz mt (Some 0) wlen"
  by (simp add: propose_def)

subsection \<open>Evaluation of the example inputs\<close>

lemma sensor_failed: "get_sensor_data CalledProcessError = Inr None"
  by (simp add: get_sensor_data_def)

lemmas parse_defs = get_sensor_data_def sensor_table_def splitlines_def is_linebreak_def
  sensor_line_def store_reading_def item_def py_float_def strip_def py_isspace_def take_sign_def
  ci_eq_def is_digit_def digits_val_def digit_val_def py_int_def

lemmas eval_defs = tick_def read_temps_def sensor_failed propose_def apply_speed_def
  set_fan_speed_def run_ipmitool_def get_fan_rpm_def py_int_str_def strip_def py_isspace_def
  take_sign_def is_digit_def digits_val_def digit_val_def init_def monitor_usage_def dq_append_def
  step_state_def blind_def stuck_def seeing_def HOLD_TIME_def DROP_DELAY_def numeral_3_eq_3 Let_def
  proposal_def ctrl_def hex_speed_def update_temps_def lookup_key_def

lemma table_30:
  "get_sensor_data (Output (sensor_table ''30.000'' ''30.000'' ''30.000'' ''30.000''))
     = Inr (Some [(''inlet'', 30), (''exhaust'', 30), (''cpu1'', 30), (''cpu2'', 30)])"
  by (simp add: parse_defs)

lemma table_31:
  "get_sensor_data (Output (sensor_table ''24.000'' ''31.000'' ''29.500'' ''30.000''))
     = Inr (Some [(''inlet'', 24), (''exhaust'', 31), (''cpu1'', 29), (''cpu2'', 30)])"
  by (simp add: parse_defs)

lemma table_20:
  "get_sensor_data (Output (sensor_table ''18.000'' ''20.000'' ''19.000'' ''19.000''))
     = Inr (Some [(''inlet'', 18), (''exhaust'', 20), (''cpu1'', 19), (''cpu2'', 19)])"
  by (simp add: parse_defs)

lemma table_24:
  "get_sensor_data (Output (sensor_table ''18.000'' ''24.000'' ''19.000'' ''19.000''))
     = Inr (Some [(''inlet'', 18), (''exhaust'', 24), (''cpu1'', 19), (''cpu2'', 19)])"
  by (simp add: parse_defs)

lemma table_55:
  "get_sensor_data (Output (sensor_table ''22.000'' ''55.000'' ''48.000'' ''51.000''))
     = Inr (Some [(''inlet'', 22), (''exhaust'', 55), (''cpu1'', 48), (''cpu2'', 51)])"
  by (simp add: parse_defs)

section \<open>The claims\<close>

subsection \<open>C1: the decision\<close>

text \<open>
  Claim C1. The proposed speed is chosen by the first matching case: with a spike,
  the bands of the spike size (above 25: 100, above 15: 80, above 10: 60, otherwise
  40); without one, the bands of the temperature (at least 50: 100, at least 45: 80,
  at least 40: 60, at least 30: 40), then 80 for a window of at least five entries
  and a rate above 0.5, then 25. With a spike the proposal does not depend on the
  temperature, the rate or the window: a spike of 30 at 20 degrees proposes 100.
  In every reachable state the proposal of an iteration is this decision for the spike
  flag, the spike size, the maximum temperature, some rate and the length of the
  window after the read: the local \<^verbatim>\<open>temp_rate\<close> is never read before it is assigned.
\<close>

theorem propose_first_match:
  "map_sum id fst (propose spike sz mt (Some rate) wlen) =
     Inr (if spike then
            (if sz > 25 then 100 else if sz > 15 then 80 else if sz > 10 then 60 else 40)
          else if mt \<ge> 50 then 100
          else if mt \<ge> 45 then 80
          else if mt \<ge> 40 then 60
          else if mt \<ge> 30 then 40
          else if wlen \<ge> 5 \<and> rate > 0.5 then 80
          else 25)
   \<and> propose True sz mt r wlen = propose True sz mt' r' wlen'
   \<and> map_sum id fst (propose True 30 20 r wlen) = Inr 100
   \<and> (reachable s \<and> read_temps inp s = Inr s' \<longrightarrow>
         (\<exists>x. proposal inp s = propose (spike_detected s) (spike_size s) (max_temp s') (Some x)
                                  (length (temp_window s'))))"
proof -
  have loop: "\<exists>x. proposal inp s = propose (spike_detected s) (spike_size s) (max_temp s') (Some x)
                                  (length (temp_window s'))"
    if re: "reachable s" and rd: "read_temps inp s = Inr s'"
  proof -
    from read_temps_frame [OF rd]
    have f: "spike_detected s' = spike_detected s" "spike_size s' = spike_size s" by simp_all
    from rd f have p: "proposal inp s = propose (spike_detected s) (spike_size s) (max_temp s')
        (temp_rate s') (length (temp_window s'))"
      by (simp add: proposal_def)
    from read_temps_rate_bound [OF rd reachable_rate_bound [OF re]]
    have b: "temp_window s' \<noteq> [] \<longrightarrow> temp_rate s' \<noteq> None" .
    show ?thesis
    proof (cases "temp_rate s'")
      case None
      with b have "length (temp_window s') < 5" by simp
      from propose_unbound_short [OF this] p None show ?thesis by auto
    next
      case (Some x)
      with p show ?thesis by auto
    qed
  qed
  have table: "map_sum id fst (propose spike sz mt (Some rate) wlen) =
     Inr (if spike then
            (if sz > 25 then 100 else if sz > 15 then 80 else if sz > 10 then 60 else 40)
          else if mt \<ge> 50 then 100
          else if mt \<ge> 45 then 80
          else if mt \<ge> 40 then 60
          else if mt \<ge> 30 then 40
          else if wlen \<ge> 5 \<and> rate > 0.5 then 80
          else 25)"
    by (simp add: propose_def)
  have spike: "propose True sz mt r wlen = propose True sz mt' r' wlen'"
    by (simp add: propose_def)
  have scen: "map_sum id fst (propose True 30 20 r wlen) = Inr 100"
    by (simp add: propose_def)
  from table spike scen loop show ?thesis by blast
qed

text \<open>
  C1 at concrete inputs: no spike and 49 degrees propose 80; and the first
  iteration from the initial state, with a failed read.
\<close>

theorem propose_first_match_witness:
  "map_sum id fst (propose False 0 49 (Some 0) 3) = Inr 80
   \<and> reachable init \<and> read_temps (blind 1000) init = Inr init
   \<and> (\<exists>x. proposal (blind 1000) init
            = propose (spike_detected init) (spike_size init) (max_temp init) (Some x)
                (length (temp_window init)))"
proof -
  note inst = propose_first_match [where spike = False and sz = 0 and mt = 49 and rate = 0 and wlen = 3
      and s = init and inp = "blind 1000" and s' = init]
  have a: "map_sum id fst (propose False 0 49 (Some 0) 3) = Inr 80"
    using inst [THEN conjunct1] by simp
  have "run [] init = Some init" by simp
  then have k1: "reachable init" unfolding reachable_def by (rule exI)
  have k2: "read_temps (blind 1000) init = Inr init"
    by (simp add: read_temps_def blind_def sensor_failed)
  have b: "\<exists>x. proposal (blind 1000) init
            = propose (spike_detected init) (spike_size init) (max_temp init) (Some x)
                (length (temp_window init))"
    by (rule inst [THEN conjunct2, THEN conjunct2, THEN conjunct2, rule_format, OF conjI [OF k1 k2]])
  show ?thesis
    by (rule conjI [OF a conjI [OF k1 conjI [OF k2 b]]])
qed

subsection \<open>C2: the guard of a decrease\<close>

text \<open>
  Claim C2 says that a decrease is applied only after 30 seconds of a continuously
  sustained lower proposal. A run where it is not so: at 1000 the speed goes to 60
  (cooldown until 1030); at 1001 the proposal is 25 and the delay starts; at 1002 a
  spike proposes 100, above the current speed, and the actuator fails, which leaves
  the state, and so the timer, as it was; at 1031 the proposal is 25 again and the
  decrease is applied, although the lower proposal was interrupted at 1002.
\<close>

theorem sustained_proposal_counterexample:
  "map_option ctrl (run [Sample 12, Tick (blind 1000), Tick (blind 1001)] init)
     = Some (60, 1030, 1001,
             \<lparr>t_usage = 12, t_temp = 25, t_time = 1000, t_reason = ModerateSpike 12\<rparr>)
   \<and> proposal (stuck 1002)
        (the (run [Sample 12, Tick (blind 1000), Tick (blind 1001), Sample 50] init))
     = Inr (100, ExtremeSpike 38)
   \<and> map_option ctrl
        (run [Sample 12, Tick (blind 1000), Tick (blind 1001), Sample 50, Tick (stuck 1002)] init)
     = Some (60, 1030, 1001,
             \<lparr>t_usage = 12, t_temp = 25, t_time = 1000, t_reason = ModerateSpike 12\<rparr>)
   \<and> fst (tick (blind 1031)
        (the (run [Sample 12, Tick (blind 1000), Tick (blind 1001), Sample 50, Tick (stuck 1002)] init)))
     = [SetFanSpeed 25, Notify Decreased 25 6500 (LowTemp 25)]"
  by (simp add: eval_defs)

text \<open>
  Claim C2, amended. In every state reached from the initial one, an iteration calls
  the actuator with a speed below the current one only if a delay is running
  (\<open>drop_delay_start\<close> is set), at least \<open>DROP_DELAY\<close> seconds have passed since it
  started and the cooldown has ended. The delay was started by an earlier iteration, at
  the time it holds, and every iteration since then either proposed a speed below the
  current one or proposed a speed above it that the actuator failed to set. And an
  iteration whose proposal equals the current speed clears \<open>drop_delay_start\<close>.
\<close>

theorem decrease_guard:
  assumes "run sts init = Some s"
    and "SetFanSpeed v \<in> set (fst (tick inp s))"
    and "v < current_speed s"
  shows "drop_delay_start s \<noteq> 0 \<and> in_now inp - drop_delay_start s \<ge> DROP_DELAY
       \<and> in_now inp \<ge> cooldown_end s
       \<and> (\<exists>pre inp0 post sp. sts = pre @ Tick inp0 # post \<and> run pre init = Some sp \<and>
             drop_delay_start sp = 0 \<and> in_now inp0 = drop_delay_start s \<and>
             pending_run (Tick inp0 # post) sp)
       \<and> (\<forall>inp' x rsn. proposal inp' x = Inr (current_speed x, rsn) \<longrightarrow>
             (\<exists>x'. tick inp' x = ([], Inr x') \<and> drop_delay_start x' = 0))"
proof -
  from tick_decrease_guard [OF assms(2,3)]
  have g: "drop_delay_start s \<noteq> 0" "in_now inp - drop_delay_start s \<ge> DROP_DELAY"
    "in_now inp \<ge> cooldown_end s"
    by simp_all
  from pending_history [OF assms(1) init_timer g(1)]
  have h: "\<exists>pre inp0 post sp. sts = pre @ Tick inp0 # post \<and> run pre init = Some sp \<and>
             drop_delay_start sp = 0 \<and> in_now inp0 = drop_delay_start s \<and>
             pending_run (Tick inp0 # post) sp" .
  have e: "\<exists>x'. tick inp' x = ([], Inr x') \<and> drop_delay_start x' = 0"
    if p: "proposal inp' x = Inr (current_speed x, rsn)" for inp' x rsn
  proof -
    from tick_via_proposal [OF p] obtain s1 where
      c: "ctrl s1 = ctrl x" and
      t: "tick inp' x = (case apply_speed inp' (current_speed x) rsn s1 of
                     (evs, Inl e) \<Rightarrow> (evs, Inl e)
                   | (evs, Inr s2) \<Rightarrow> (evs, Inr (s2\<lparr>spike_detected := False\<rparr>)))"
      by blast
    from c have "current_speed x = current_speed s1" by (simp add: ctrl_def)
    with t show ?thesis by (simp add: apply_speed_equal)
  qed
  from g h e show ?thesis by blast
qed

text \<open>
  C2 on a run: the speed goes to 60 at 1000, the delay starts at 1001, and the
  decrease to 25 is applied at 1031; and in the initial state a proposal of the
  current speed clears the timer.
\<close>

theorem decrease_guard_witness:
  "run [Sample 12, Tick (blind 1000), Tick (blind 1001)] init
     = Some (the (run [Sample 12, Tick (blind 1000), Tick (blind 1001)] init))
   \<and> SetFanSpeed 25 \<in> set (fst (tick (blind 1031)
         (the (run [Sample 12, Tick (blind 1000), Tick (blind 1001)] init))))
   \<and> 25 < current_speed (the (run [Sample 12, Tick (blind 1000), Tick (blind 1001)] init))
   \<and> in_now (blind 1031) - drop_delay_start (the (run [Sample 12, Tick (blind 1000), Tick (blind 1001)] init))
        \<ge> DROP_DELAY
   \<and> in_now (blind 1031) \<ge> cooldown_end (the (run [Sample 12, Tick (blind 1000), Tick (blind 1001)] init))
   \<and> (\<exists>pre inp0 post sp.
          [Sample 12, Tick (blind 1000), Tick (blind 1001)] = pre @ Tick inp0 # post \<and>
          run pre init = Some sp \<and> drop_delay_start sp = 0 \<and>
          in_now inp0 = drop_delay_start (the (run [Sample 12, Tick (blind 1000), Tick (blind 1001)] init)) \<and>
          pending_run (Tick inp0 # post) sp)
   \<and> proposal (blind 1000) init = Inr (current_speed init, LowTemp 25)
   \<and> (\<exists>x'. tick (blind 1000) init = ([], Inr x') \<and> drop_delay_start x' = 0)"
proof -
  have h1: "run [Sample 12, Tick (blind 1000), Tick (blind 1001)] init
     = Some (the (run [Sample 12, Tick (blind 1000), Tick (blind 1001)] init))"
    by (simp add: eval_defs)
  have h2: "SetFanSpeed 25 \<in> set (fst (tick (blind 1031)
         (the (run [Sample 12, Tick (blind 1000), Tick (blind 1001)] init))))"
    by (simp add: eval_defs)
  have h3: "25 < current_speed (the (run [Sample 12, Tick (blind 1000), Tick (blind 1001)] init))"
    by (simp add: eval_defs)
  have p: "proposal (blind 1000) init = Inr (current_speed init, LowTemp 25)"
    by (simp add: eval_defs)
  note inst = decrease_guard [OF h1 h2 h3]
  have b: "in_now (blind 1031) - drop_delay_start (the (run [Sample 12, Tick (blind 1000), Tick (blind 1001)] init))
        \<ge> DROP_DELAY"
    by (rule inst [THEN conjunct2, THEN conjunct1])
  have c: "in_now (blind 1031) \<ge> cooldown_end (the (run [Sample 12, Tick (blind 1000), Tick (blind 1001)] init))"
    by (rule inst [THEN conjunct2, THEN conjunct2, THEN conjunct1])
  have d: "\<exists>pre inp0 post sp.
          [Sample 12, Tick (blind 1000), Tick (blind 1001)] = pre @ Tick inp0 # post \<and>
          run pre init = Some sp \<and> drop_delay_start sp = 0 \<and>
          in_now inp0 = drop_delay_start (the (run [Sample 12, Tick (blind 1000), Tick (blind 1001)] init)) \<and>
          pending_run (Tick inp0 # post) sp"
    by (rule inst [THEN conjunct2, THEN conjunct2, THEN conjunct2, THEN conjunct1])
  have e: "\<exists>x'. tick (blind 1000) init = ([], Inr x') \<and> drop_delay_start x' = 0"
    by (rule inst [THEN conjunct2, THEN conjunct2, THEN conjunct2, THEN conjunct2, rule_format, OF p])
  show ?thesis
    by (rule conjI [OF h1 conjI [OF h2 conjI [OF h3 conjI [OF b conjI [OF c conjI [OF d conjI [OF p e]]]]]]])
qed

subsection \<open>C3: increases are immediate\<close>

text \<open>
  Claim C3 includes the case of a spike whose proposal equals the current speed. There
  the outer test \<^verbatim>\<open>new_speed != current_speed\<close> fails and no call is made: after a
  small spike has set the speed to 40, a second small spike proposes 40 and the
  iteration calls nothing.
\<close>

theorem spike_equal_counterexample:
  "spike_detected (the (run [Sample 6, Tick (blind 1000), Sample 12] init))
   \<and> proposal (blind 1001) (the (run [Sample 6, Tick (blind 1000), Sample 12] init)) = Inr (40, SmallSpike 6)
   \<and> 40 \<ge> current_speed (the (run [Sample 6, Tick (blind 1000), Sample 12] init))
   \<and> fst (tick (blind 1001) (the (run [Sample 6, Tick (blind 1000), Sample 12] init))) = []"
  by (simp add: eval_defs)

text \<open>
  Claim C3, amended. An iteration whose proposal is above the current speed, with or
  without a spike, calls \<^verbatim>\<open>set_fan_speed\<close> with that proposal as its first action,
  whatever \<open>drop_delay_start\<close> and \<open>cooldown_end\<close> are. An iteration whose proposal
  equals the current speed makes no call, with or without a spike.
\<close>

theorem increase_immediate:
  assumes "proposal inp s = Inr (target, rsn)"
  shows "(target > current_speed s \<longrightarrow>
            (\<exists>rest out. tick inp s = (SetFanSpeed target # rest, out)))
       \<and> (target = current_speed s \<longrightarrow> fst (tick inp s) = [])"
proof -
  from tick_via_proposal [OF assms] obtain s1 where
    c: "ctrl s1 = ctrl s" and
    t: "tick inp s = (case apply_speed inp target rsn s1 of
                     (evs, Inl e) \<Rightarrow> (evs, Inl e)
                   | (evs, Inr s2) \<Rightarrow> (evs, Inr (s2\<lparr>spike_detected := False\<rparr>)))"
    by blast
  from c have cs: "current_speed s1 = current_speed s" by (simp add: ctrl_def)
  have up: "\<exists>rest out. tick inp s = (SetFanSpeed target # rest, out)"
    if "target > current_speed s"
  proof -
    from that cs have "target > current_speed s1" by simp
    from apply_speed_increase [OF this] obtain rest out where
      "apply_speed inp target rsn s1 = (SetFanSpeed target # rest, out)" by blast
    with t show ?thesis by (cases out) auto
  qed
  have same: "fst (tick inp s) = []" if "target = current_speed s"
  proof -
    from that cs have "target = current_speed s1" by simp
    with t show ?thesis by (simp add: apply_speed_equal)
  qed
  from up same show ?thesis by blast
qed

text \<open>
  C3 on two runs: one second after a change, inside its cooldown, a spike proposes
  100 and the actuator is called; and a spike that proposes the current speed calls
  nothing.
\<close>

theorem increase_immediate_witness:
  "proposal (blind 1001) (the (run [Sample 12, Tick (blind 1000), Sample 50] init))
     = Inr (100, ExtremeSpike 38)
   \<and> 100 > current_speed (the (run [Sample 12, Tick (blind 1000), Sample 50] init))
   \<and> in_now (blind 1001) < cooldown_end (the (run [Sample 12, Tick (blind 1000), Sample 50] init))
   \<and> (\<exists>rest out. tick (blind 1001) (the (run [Sample 12, Tick (blind 1000), Sample 50] init))
          = (SetFanSpeed 100 # rest, out))
   \<and> proposal (blind 1001) (the (run [Sample 6, Tick (blind 1000), Sample 12] init))
     = Inr (40, SmallSpike 6)
   \<and> 40 = current_speed (the (run [Sample 6, Tick (blind 1000), Sample 12] init))
   \<and> fst (tick (blind 1001) (the (run [Sample 6, Tick (blind 1000), Sample 12] init))) = []"
proof -
  have h1: "proposal (blind 1001) (the (run [Sample 12, Tick (blind 1000), Sample 50] init))
     = Inr (100, ExtremeSpike 38)"
    by (simp add: eval_defs)
  have h2: "100 > current_speed (the (run [Sample 12, Tick (blind 1000), Sample 50] init))"
    by (simp add: eval_defs)
  have h3: "in_now (blind 1001) < cooldown_end (the (run [Sample 12, Tick (blind 1000), Sample 50] init))"
    by (simp add: eval_defs)
  have k1: "proposal (blind 1001) (the (run [Sample 6, Tick (blind 1000), Sample 12] init))
     = Inr (40, SmallSpike 6)"
    by (simp add: eval_defs)
  have k2: "40 = current_speed (the (run [Sample 6, Tick (blind 1000), Sample 12] init))"
    by (simp add: eval_defs)
  have e1: "\<exists>rest out. tick (blind 1001) (the (run [Sample 12, Tick (blind 1000), Sample 50] init))
          = (SetFanSpeed 100 # rest, out)"
    using increase_immediate [OF h1] h2 by (rule mp [OF conjunct1])
  have e2: "fst (tick (blind 1001) (the (run [Sample 6, Tick (blind 1000), Sample 12] init))) = []"
    using increase_immediate [OF k1] k2 by (rule mp [OF conjunct2])
  show ?thesis
    by (rule conjI [OF h1 conjI [OF h2 conjI [OF h3 conjI [OF e1 conjI [OF k1 conjI [OF k2 e2]]]]]])
qed

subsection \<open>C4: the cooldown\<close>

text \<open>
  Claim C4 says that the cooldown holds back changes in both directions. An increase
  inside the cooldown: the speed goes to 60 at 1000, with the cooldown ending at 1030,
  and at 1001 a spike raises it to 100.
\<close>

theorem cooldown_increase_counterexample:
  "map_option ctrl (run [Sample 12, Tick (blind 1000), Sample 50] init)
     = Some (60, 1030, 0,
             \<lparr>t_usage = 12, t_temp = 25, t_time = 1000, t_reason = ModerateSpike 12\<rparr>)
   \<and> in_now (blind 1001) < 1030
   \<and> fst (tick (blind 1001) (the (run [Sample 12, Tick (blind 1000), Sample 50] init)))
     = [SetFanSpeed 100, Notify Increased 100 6500 (ExtremeSpike 38)]
   \<and> map_option current_speed (run [Sample 12, Tick (blind 1000), Sample 50, Tick (blind 1001)] init)
     = Some 100"
  by (simp add: eval_defs)

text \<open>
  Claim C4, amended. An applied change at time \<open>t\<close> sets \<open>cooldown_end\<close> to
  \<open>t + HOLD_TIME\<close>; afterwards \<open>cooldown_end\<close> is that, or the same for the time of
  a later iteration; no iteration calls the actuator with a speed below the current
  one before \<open>cooldown_end\<close>; and an iteration proposing a speed above the current one
  calls the actuator whatever \<open>cooldown_end\<close> is.
\<close>

theorem cooldown_guards_decrease:
  assumes change: "tick inp0 s0 = (evs0, Inr s1)" "current_speed s1 \<noteq> current_speed s0"
    and later: "run sts s1 = Some s"
  shows "cooldown_end s1 = in_now inp0 + HOLD_TIME
       \<and> (cooldown_end s = in_now inp0 + HOLD_TIME
          \<or> (\<exists>inp'. Tick inp' \<in> set sts \<and> cooldown_end s = in_now inp' + HOLD_TIME))
       \<and> (\<forall>inp v. SetFanSpeed v \<in> set (fst (tick inp s)) \<and> v < current_speed s \<longrightarrow>
             in_now inp \<ge> cooldown_end s)
       \<and> (\<forall>inp v rsn. proposal inp s = Inr (v, rsn) \<and> v > current_speed s \<longrightarrow>
             SetFanSpeed v \<in> set (fst (tick inp s)))"
proof -
  from tick_change [OF change(1)] change(2)
  have a: "cooldown_end s1 = in_now inp0 + HOLD_TIME" by simp
  from run_cooldown [OF later] a
  have b: "cooldown_end s = in_now inp0 + HOLD_TIME
          \<or> (\<exists>inp'. Tick inp' \<in> set sts \<and> cooldown_end s = in_now inp' + HOLD_TIME)"
    by auto
  have c: "in_now inp \<ge> cooldown_end s"
    if "SetFanSpeed v \<in> set (fst (tick inp s))" "v < current_speed s" for inp v
    using tick_decrease_guard [OF that] by simp
  have d: "SetFanSpeed v \<in> set (fst (tick inp s))"
    if p: "proposal inp s = Inr (v, rsn)" and up: "v > current_speed s" for inp v rsn
  proof -
    from tick_via_proposal [OF p] obtain x where
      c: "ctrl x = ctrl s" and
      t: "tick inp s = (case apply_speed inp v rsn x of
                     (evs, Inl e) \<Rightarrow> (evs, Inl e)
                   | (evs, Inr s2) \<Rightarrow> (evs, Inr (s2\<lparr>spike_detected := False\<rparr>)))"
      by blast
    from c up have "v > current_speed x" by (simp add: ctrl_def)
    from apply_speed_increase [OF this] obtain rest out where
      "apply_speed inp v rsn x = (SetFanSpeed v # rest, out)" by blast
    with t show ?thesis by (cases out) auto
  qed
  from a b c d show ?thesis by blast
qed

text \<open>
  C4 on a run: a change at 1000 and the start of a delay at 1001; then a decrease
  at 1031, after the cooldown, and an increase at 1002, inside it.
\<close>

theorem cooldown_guards_decrease_witness:
  "tick (blind 1000) (monitor_usage 12 init)
     = ([SetFanSpeed 60, Notify Increased 60 6500 (ModerateSpike 12)],
        Inr (the (run [Tick (blind 1000)] (monitor_usage 12 init))))
   \<and> current_speed (the (run [Tick (blind 1000)] (monitor_usage 12 init)))
        \<noteq> current_speed (monitor_usage 12 init)
   \<and> run [Tick (blind 1001)] (the (run [Tick (blind 1000)] (monitor_usage 12 init)))
     = Some (the (run [Tick (blind 1000), Tick (blind 1001)] (monitor_usage 12 init)))
   \<and> cooldown_end (the (run [Tick (blind 1000)] (monitor_usage 12 init)))
     = in_now (blind 1000) + HOLD_TIME
   \<and> SetFanSpeed 25 \<in> set (fst (tick (blind 1031)
         (the (run [Tick (blind 1000), Tick (blind 1001)] (monitor_usage 12 init)))))
   \<and> 25 < current_speed (the (run [Tick (blind 1000), Tick (blind 1001)] (monitor_usage 12 init)))
   \<and> in_now (blind 1031)
       \<ge> cooldown_end (the (run [Tick (blind 1000), Tick (blind 1001)] (monitor_usage 12 init)))
   \<and> proposal (seeing 1002 (sensor_table ''22.000'' ''55.000'' ''48.000'' ''51.000''))
         (the (run [Tick (blind 1000), Tick (blind 1001)] (monitor_usage 12 init)))
       = Inr (100, HighTemp 55)
   \<and> 100 > current_speed (the (run [Tick (blind 1000), Tick (blind 1001)] (monitor_usage 12 init)))
   \<and> in_now (seeing 1002 (sensor_table ''22.000'' ''55.000'' ''48.000'' ''51.000''))
       < cooldown_end (the (run [Tick (blind 1000), Tick (blind 1001)] (monitor_usage 12 init)))
   \<and> SetFanSpeed 100 \<in> set (fst (tick (seeing 1002 (sensor_table ''22.000'' ''55.000'' ''48.000'' ''51.000''))
         (the (run [Tick (blind 1000), Tick (blind 1001)] (monitor_usage 12 init)))))"
proof -
  have h1: "tick (blind 1000) (monitor_usage 12 init)
     = ([SetFanSpeed 60, Notify Increased 60 6500 (ModerateSpike 12)],
        Inr (the (run [Tick (blind 1000)] (monitor_usage 12 init))))"
    by (simp add: eval_defs)
  have h2: "current_speed (the (run [Tick (blind 1000)] (monitor_usage 12 init)))
        \<noteq> current_speed (monitor_usage 12 init)"
    by (simp add: eval_defs)
  have h3: "run [Tick (blind 1001)] (the (run [Tick (blind 1000)] (monitor_usage 12 init)))
     = Some (the (run [Tick (blind 1000), Tick (blind 1001)] (monitor_usage 12 init)))"
    by (simp add: eval_defs)
  have d1: "SetFanSpeed 25 \<in> set (fst (tick (blind 1031)
         (the (run [Tick (blind 1000), Tick (blind 1001)] (monitor_usage 12 init)))))"
    by (simp add: eval_defs)
  have d2: "25 < current_speed (the (run [Tick (blind 1000), Tick (blind 1001)] (monitor_usage 12 init)))"
    by (simp add: eval_defs)
  have u1: "proposal (seeing 1002 (sensor_table ''22.000'' ''55.000'' ''48.000'' ''51.000''))
         (the (run [Tick (blind 1000), Tick (blind 1001)] (monitor_usage 12 init)))
       = Inr (100, HighTemp 55)"
    by (simp add: eval_defs table_55)
  have u2: "100 > current_speed (the (run [Tick (blind 1000), Tick (blind 1001)] (monitor_usage 12 init)))"
    by (simp add: eval_defs)
  have u3: "in_now (seeing 1002 (sensor_table ''22.000'' ''55.000'' ''48.000'' ''51.000''))
       < cooldown_end (the (run [Tick (blind 1000), Tick (blind 1001)] (monitor_usage 12 init)))"
    by (simp add: eval_defs)
  note inst = cooldown_guards_decrease [OF h1 h2 h3]
  have c: "cooldown_end (the (run [Tick (blind 1000)] (monitor_usage 12 init)))
     = in_now (blind 1000) + HOLD_TIME"
    using inst by (rule conjunct1)
  have g: "\<forall>inp v. SetFanSpeed v \<in> set (fst (tick inp
              (the (run [Tick (blind 1000), Tick (blind 1001)] (monitor_usage 12 init)))))
            \<and> v < current_speed (the (run [Tick (blind 1000), Tick (blind 1001)] (monitor_usage 12 init)))
          \<longrightarrow> in_now inp
              \<ge> cooldown_end (the (run [Tick (blind 1000), Tick (blind 1001)] (monitor_usage 12 init)))"
    using inst by (rule conjunct1 [OF conjunct2 [OF conjunct2]])
  have i: "\<forall>inp v rsn. proposal inp
              (the (run [Tick (blind 1000), Tick (blind 1001)] (monitor_usage 12 init))) = Inr (v, rsn)
            \<and> v > current_speed (the (run [Tick (blind 1000), Tick (blind 1001)] (monitor_usage 12 init)))
          \<longrightarrow> SetFanSpeed v \<in> set (fst (tick inp
              (the (run [Tick (blind 1000), Tick (blind 1001)] (monitor_usage 12 init)))))"
    using inst by (rule conjunct2 [OF conjunct2 [OF conjunct2]])
  have d3: "in_now (blind 1031)
       \<ge> cooldown_end (the (run [Tick (blind 1000), Tick (blind 1001)] (monitor_usage 12 init)))"
    by (rule g [rule_format, OF conjI [OF d1 d2]])
  have u4: "SetFanSpeed 100 \<in> set (fst (tick (seeing 1002 (sensor_table ''22.000'' ''55.000'' ''48.000'' ''51.000''))
         (the (run [Tick (blind 1000), Tick (blind 1001)] (monitor_usage 12 init)))))"
    by (rule i [rule_format, OF conjI [OF u1 u2]])
  show ?thesis
    by (rule conjI [OF h1 conjI [OF h2 conjI [OF h3 conjI [OF c conjI [OF d1 conjI [OF d2
          conjI [OF d3 conjI [OF u1 conjI [OF u2 conjI [OF u3 u4]]]]]]]]]])
qed

subsection \<open>C5: a failed actuator call\<close>

text \<open>
  Claim C5. If an iteration calls \<^verbatim>\<open>set_fan_speed\<close> and none of the three attempts
  returns code zero, then the call is the only action of the iteration (no
  notification), the iteration ends normally, and \<open>current_speed\<close>, \<open>cooldown_end\<close>,
  \<open>drop_delay_start\<close> and \<open>last_trigger\<close> are unchanged.
\<close>

theorem actuator_failure_keeps_state:
  assumes called: "SetFanSpeed target \<in> set (fst (tick inp s))"
    and a0: "in_ipmi inp (''raw 0x30 0x30 0x02 0xff '' @ hex_speed target) 0 \<noteq> Rc0"
    and a1: "in_ipmi inp (''raw 0x30 0x30 0x02 0xff '' @ hex_speed target) 1 \<noteq> Rc0"
    and a2: "in_ipmi inp (''raw 0x30 0x30 0x02 0xff '' @ hex_speed target) 2 \<noteq> Rc0"
  shows "\<exists>s'. tick inp s = ([SetFanSpeed target], Inr s') \<and>
           current_speed s' = current_speed s \<and> cooldown_end s' = cooldown_end s \<and>
           drop_delay_start s' = drop_delay_start s \<and> last_trigger s' = last_trigger s"
proof -
  from a0 a1 a2 have fail: "\<not> set_fan_speed (in_ipmi inp) target"
    by (simp add: set_fan_speed_iff)
  from tick_events_proposal [OF called] obtain r where p: "proposal inp s = Inr (target, r)" ..
  from tick_via_proposal [OF p] obtain s1 where
    c: "ctrl s1 = ctrl s" and
    t: "tick inp s = (case apply_speed inp target r s1 of
                     (evs, Inl e) \<Rightarrow> (evs, Inl e)
                   | (evs, Inr s2) \<Rightarrow> (evs, Inr (s2\<lparr>spike_detected := False\<rparr>)))"
    by blast
  have "fst (tick inp s) = fst (apply_speed inp target r s1)"
    unfolding t by (auto split: prod.splits sum.splits)
  with called have "SetFanSpeed target \<in> set (fst (apply_speed inp target r s1))" by simp
  from apply_speed_failure [OF this fail]
  show ?thesis using t c by (auto simp: ctrl_def)
qed

text \<open>
  C5 at a concrete input: a spike proposes 60 and the actuator fails.
\<close>

theorem actuator_failure_keeps_state_witness:
  "SetFanSpeed 60 \<in> set (fst (tick (stuck 1000) (monitor_usage 12 init)))
   \<and> (\<exists>s'. tick (stuck 1000) (monitor_usage 12 init) = ([SetFanSpeed 60], Inr s') \<and>
           current_speed s' = current_speed (monitor_usage 12 init) \<and>
           cooldown_end s' = cooldown_end (monitor_usage 12 init) \<and>
           drop_delay_start s' = drop_delay_start (monitor_usage 12 init) \<and>
           last_trigger s' = last_trigger (monitor_usage 12 init))"
proof -
  have h1: "SetFanSpeed 60 \<in> set (fst (tick (stuck 1000) (monitor_usage 12 init)))"
    by (simp add: eval_defs)
  have h2: "in_ipmi (stuck 1000) (''raw 0x30 0x30 0x02 0xff '' @ hex_speed 60) 0 \<noteq> Rc0"
    by (simp add: stuck_def)
  have h3: "in_ipmi (stuck 1000) (''raw 0x30 0x30 0x02 0xff '' @ hex_speed 60) 1 \<noteq> Rc0"
    by (simp add: stuck_def)
  have h4: "in_ipmi (stuck 1000) (''raw 0x30 0x30 0x02 0xff '' @ hex_speed 60) 2 \<noteq> Rc0"
    by (simp add: stuck_def)
  from actuator_failure_keeps_state [OF h1 h2 h3 h4] h1 show ?thesis by blast
qed

subsection \<open>C6: a sensor output that does not parse\<close>

text \<open>
  Claim C6 says that \<^verbatim>\<open>get_sensor_data\<close> returns \<^verbatim>\<open>None\<close> on every sensor
  output that does not parse, and that the iteration never ends with an exception.
  The code catches CalledProcessError only. A table whose first CPU row reads
  \<^verbatim>\<open>na\<close> raises ValueError in \<^verbatim>\<open>float\<close>, and the iteration ends with it; a
  table with the inlet row only gives a dictionary with one key, which is true, and
  the iteration ends with KeyError.
\<close>

theorem sensor_parse_failure_raises:
  "get_sensor_data (Output (sensor_table ''20.000'' ''21.500'' ''na'' ''25.000'')) = Inl ValueError
   \<and> tick (seeing 1000 (sensor_table ''20.000'' ''21.500'' ''na'' ''25.000'')) init = ([], Inl ValueError)
   \<and> get_sensor_data (Output ''Inlet Temp       | 20.000     | degrees C  | ok'')
       = Inr (Some [(''inlet'', 20)])
   \<and> tick (seeing 1000 ''Inlet Temp       | 20.000     | degrees C  | ok'') init = ([], Inl KeyError)"
proof -
  have a: "get_sensor_data (Output (sensor_table ''20.000'' ''21.500'' ''na'' ''25.000'')) = Inl ValueError"
    by (simp add: parse_defs)
  have b: "get_sensor_data (Output ''Inlet Temp       | 20.000     | degrees C  | ok'')
       = Inr (Some [(''inlet'', 20)])"
    by (simp add: parse_defs)
  have c: "tick (seeing 1000 (sensor_table ''20.000'' ''21.500'' ''na'' ''25.000'')) init = ([], Inl ValueError)"
    by (simp add: tick_def read_temps_def seeing_def a)
  have d: "tick (seeing 1000 ''Inlet Temp       | 20.000     | degrees C  | ok'') init = ([], Inl KeyError)"
    by (simp add: tick_def read_temps_def seeing_def b update_temps_def lookup_key_def)
  from a b c d show ?thesis by simp
qed

subsection \<open>C7: the trend\<close>

text \<open>
  Claim C7 says that the trend is rising whenever the new maximum is above the
  previous one, also at the first sample. At the first sample the window has one entry,
  the test \<^verbatim>\<open>len(temp_window) > 1\<close> fails, and a maximum of 30 above the initial 25
  gives the trend falling.
\<close>

theorem first_sample_trend_counterexample:
  "temp_window init = []
   \<and> map_sum id max_temp
        (read_temps (seeing 1000 (sensor_table ''30.000'' ''30.000'' ''30.000'' ''30.000'')) init)
     = Inr 30
   \<and> max_temp init = 25
   \<and> map_sum id temp_trend
        (read_temps (seeing 1000 (sensor_table ''30.000'' ''30.000'' ''30.000'' ''30.000'')) init)
     = Inr (Some Falling)"
  by (simp add: eval_defs table_30)

text \<open>
  Claim C7, amended. On a successful read in a reachable state whose window already
  holds a sample, the trend is rising, stable or falling as the new maximum is above,
  equal to or below the previous one. On the first sample, the trend is stable for a
  maximum equal to the previous one and falling for one below it.
\<close>

theorem trend_by_comparison:
  assumes "reachable s"
    and "get_sensor_data (in_sensor inp) = Inr (Some temps)" and "temps \<noteq> []"
    and "read_temps inp s = Inr s'"
  shows "(temp_window s \<noteq> [] \<longrightarrow>
            temp_trend s' = Some (if max_temp s' > max_temp s then Rising
                                  else if max_temp s' = max_temp s then Stable
                                  else Falling))
       \<and> (temp_window s = [] \<and> max_temp s' \<le> max_temp s \<longrightarrow>
            temp_trend s' = Some (if max_temp s' = max_temp s then Stable else Falling))"
proof -
  from assms(2,3,4) have u: "update_temps temps s = Inr s'"
    by (simp add: read_temps_def)
  from update_temps_trend [OF u] reachable_last_max [OF assms(1)]
  show ?thesis by auto
qed

text \<open>
  C7 on two reads: a first read of 30 degrees followed by a read of 31 degrees,
  rising; and a first read of 20 degrees, below the initial 25, falling.
\<close>

theorem trend_by_comparison_witness:
  "reachable (the (run [Tick (seeing 1000 (sensor_table ''30.000'' ''30.000'' ''30.000'' ''30.000''))] init))
   \<and> temp_window (the (run [Tick (seeing 1000 (sensor_table ''30.000'' ''30.000'' ''30.000'' ''30.000''))] init))
        \<noteq> []
   \<and> (\<exists>s'. read_temps (seeing 1001 (sensor_table ''24.000'' ''31.000'' ''29.500'' ''30.000''))
               (the (run [Tick (seeing 1000 (sensor_table ''30.000'' ''30.000'' ''30.000'' ''30.000''))] init))
             = Inr s'
           \<and> max_temp s'
             > max_temp (the (run [Tick (seeing 1000 (sensor_table ''30.000'' ''30.000'' ''30.000'' ''30.000''))] init))
           \<and> temp_trend s' = Some Rising)
   \<and> reachable init \<and> temp_window init = []
   \<and> (\<exists>s'. read_temps (seeing 1000 (sensor_table ''18.000'' ''20.000'' ''19.000'' ''19.000'')) init = Inr s'
           \<and> max_temp s' < max_temp init
           \<and> temp_trend s' = Some Falling)"
proof -
  have r: "\<exists>sts. run sts init
     = Some (the (run [Tick (seeing 1000 (sensor_table ''30.000'' ''30.000'' ''30.000'' ''30.000''))] init))"
    by (rule exI [of _ "[Tick (seeing 1000 (sensor_table ''30.000'' ''30.000'' ''30.000'' ''30.000''))]"])
       (simp add: eval_defs table_30)
  then have h1: "reachable (the (run [Tick (seeing 1000 (sensor_table ''30.000'' ''30.000'' ''30.000'' ''30.000''))] init))"
    unfolding reachable_def .
  have h2: "get_sensor_data (in_sensor (seeing 1001 (sensor_table ''24.000'' ''31.000'' ''29.500'' ''30.000'')))
     = Inr (Some [(''inlet'', 24), (''exhaust'', 31), (''cpu1'', 29), (''cpu2'', 30)])"
    by (simp add: seeing_def table_31)
  have h3: "[(''inlet'', 24::int), (''exhaust'', 31), (''cpu1'', 29), (''cpu2'', 30)] \<noteq> []"
    by simp
  have h5: "temp_window (the (run [Tick (seeing 1000 (sensor_table ''30.000'' ''30.000'' ''30.000'' ''30.000''))] init))
        \<noteq> []"
    by (simp add: eval_defs table_30)
  have "\<exists>s'. read_temps (seeing 1001 (sensor_table ''24.000'' ''31.000'' ''29.500'' ''30.000''))
               (the (run [Tick (seeing 1000 (sensor_table ''30.000'' ''30.000'' ''30.000'' ''30.000''))] init))
             = Inr s'
           \<and> max_temp s'
             > max_temp (the (run [Tick (seeing 1000 (sensor_table ''30.000'' ''30.000'' ''30.000'' ''30.000''))] init))"
    by (simp add: eval_defs table_30 table_31)
  then obtain s' where
    h4: "read_temps (seeing 1001 (sensor_table ''24.000'' ''31.000'' ''29.500'' ''30.000''))
               (the (run [Tick (seeing 1000 (sensor_table ''30.000'' ''30.000'' ''30.000'' ''30.000''))] init))
             = Inr s'"
    and h6: "max_temp s'
             > max_temp (the (run [Tick (seeing 1000 (sensor_table ''30.000'' ''30.000'' ''30.000'' ''30.000''))] init))"
    by blast
  from trend_by_comparison [OF h1 h2 h3 h4]
  have "temp_window (the (run [Tick (seeing 1000 (sensor_table ''30.000'' ''30.000'' ''30.000'' ''30.000''))] init)) \<noteq> [] \<longrightarrow>
            temp_trend s' = Some (if max_temp s' > max_temp (the (run [Tick (seeing 1000 (sensor_table ''30.000'' ''30.000'' ''30.000'' ''30.000''))] init)) then Rising
                                  else if max_temp s' = max_temp (the (run [Tick (seeing 1000 (sensor_table ''30.000'' ''30.000'' ''30.000'' ''30.000''))] init)) then Stable
                                  else Falling)"
    by (rule conjunct1)
  with h5 have "temp_trend s' = Some (if max_temp s' > max_temp (the (run [Tick (seeing 1000 (sensor_table ''30.000'' ''30.000'' ''30.000'' ''30.000''))] init)) then Rising
                                  else if max_temp s' = max_temp (the (run [Tick (seeing 1000 (sensor_table ''30.000'' ''30.000'' ''30.000'' ''30.000''))] init)) then Stable
                                  else Falling)"
    by (rule mp [rotated])
  with h6 have t: "temp_trend s' = Some Rising" by (simp only: if_True)
  from h4 h6 t have first: "\<exists>s'. read_temps (seeing 1001 (sensor_table ''24.000'' ''31.000'' ''29.500'' ''30.000''))
               (the (run [Tick (seeing 1000 (sensor_table ''30.000'' ''30.000'' ''30.000'' ''30.000''))] init))
             = Inr s'
           \<and> max_temp s'
             > max_temp (the (run [Tick (seeing 1000 (sensor_table ''30.000'' ''30.000'' ''30.000'' ''30.000''))] init))
           \<and> temp_trend s' = Some Rising"
    by (intro exI [of _ s'] conjI)
  have "run [] init = Some init" by simp
  then have k1: "reachable init" unfolding reachable_def by (rule exI)
  have k2: "get_sensor_data (in_sensor (seeing 1000 (sensor_table ''18.000'' ''20.000'' ''19.000'' ''19.000'')))
     = Inr (Some [(''inlet'', 18), (''exhaust'', 20), (''cpu1'', 19), (''cpu2'', 19)])"
    by (simp add: seeing_def table_20)
  have k3: "[(''inlet'', 18::int), (''exhaust'', 20), (''cpu1'', 19), (''cpu2'', 19)] \<noteq> []"
    by simp
  have k5: "temp_window init = []" by (simp add: init_def)
  have "\<exists>s'. read_temps (seeing 1000 (sensor_table ''18.000'' ''20.000'' ''19.000'' ''19.000'')) init = Inr s'
           \<and> max_temp s' < max_temp init"
    by (simp add: eval_defs table_20)
  then obtain x where
    k4: "read_temps (seeing 1000 (sensor_table ''18.000'' ''20.000'' ''19.000'' ''19.000'')) init = Inr x"
    and k6: "max_temp x < max_temp init"
    by blast
  from trend_by_comparison [OF k1 k2 k3 k4]
  have "temp_window init = [] \<and> max_temp x \<le> max_temp init \<longrightarrow>
            temp_trend x = Some (if max_temp x = max_temp init then Stable else Falling)"
    by (rule conjunct2)
  with k5 k6 have u: "temp_trend x = Some Falling" by simp
  from k4 k6 u have second: "\<exists>s'. read_temps (seeing 1000 (sensor_table ''18.000'' ''20.000'' ''19.000'' ''19.000'')) init = Inr s'
           \<and> max_temp s' < max_temp init
           \<and> temp_trend s' = Some Falling"
    by (intro exI [of _ x] conjI)
  show ?thesis
    by (rule conjI [OF h1 conjI [OF h5 conjI [OF first conjI [OF k1 conjI [OF k5 second]]]]])
qed

subsection \<open>C8: a proposal equal to the current speed\<close>

text \<open>
  Claim C8. An iteration whose proposal equals the current speed makes no call, ends
  normally, leaves \<open>current_speed\<close>, \<open>cooldown_end\<close> and \<open>last_trigger\<close> as they were
  and sets \<open>drop_delay_start\<close> to 0; a further such iteration leaves the four fields
  as the first one left them.
\<close>

theorem equal_proposal_idle:
  assumes "proposal inp s = Inr (current_speed s, rsn)"
  shows "\<exists>s'. tick inp s = ([], Inr s') \<and>
           current_speed s' = current_speed s \<and> cooldown_end s' = cooldown_end s \<and>
           last_trigger s' = last_trigger s \<and> drop_delay_start s' = 0 \<and>
           (\<forall>inp2 rsn2. proposal inp2 s' = Inr (current_speed s', rsn2) \<longrightarrow>
              (\<exists>s''. tick inp2 s' = ([], Inr s'') \<and> ctrl s'' = ctrl s'))"
proof -
  have one: "\<exists>s'. tick i x = ([], Inr s') \<and> ctrl s' = (current_speed x, cooldown_end x, 0, last_trigger x)"
    if "proposal i x = Inr (current_speed x, r)" for i x r
  proof -
    from tick_via_proposal [OF that] obtain s1 where
      c: "ctrl s1 = ctrl x" and
      t: "tick i x = (case apply_speed i (current_speed x) r s1 of
                     (evs, Inl e) \<Rightarrow> (evs, Inl e)
                   | (evs, Inr s2) \<Rightarrow> (evs, Inr (s2\<lparr>spike_detected := False\<rparr>)))"
      by blast
    from c have "current_speed x = current_speed s1" by (simp add: ctrl_def)
    with t c show ?thesis by (simp add: apply_speed_equal ctrl_def)
  qed
  from one [OF assms] obtain s' where
    s': "tick inp s = ([], Inr s')" "ctrl s' = (current_speed s, cooldown_end s, 0, last_trigger s)"
    by blast
  have "\<exists>s''. tick inp2 s' = ([], Inr s'') \<and> ctrl s'' = ctrl s'"
    if "proposal inp2 s' = Inr (current_speed s', rsn2)" for inp2 rsn2
    using one [OF that] s'(2) by (auto simp: ctrl_def)
  with s' show ?thesis by (auto simp: ctrl_def)
qed

text \<open>
  C8 at a concrete input: the initial state at 25 degrees, for two iterations.
\<close>

theorem equal_proposal_idle_witness:
  "proposal (blind 1000) init = Inr (current_speed init, LowTemp 25)
   \<and> tick (blind 1000) init = ([], Inr (the (run [Tick (blind 1000)] init)))
   \<and> ctrl (the (run [Tick (blind 1000)] init)) = ctrl init
   \<and> proposal (blind 1001) (the (run [Tick (blind 1000)] init))
      = Inr (current_speed (the (run [Tick (blind 1000)] init)), LowTemp 25)
   \<and> (\<exists>s''. tick (blind 1001) (the (run [Tick (blind 1000)] init)) = ([], Inr s'')
          \<and> ctrl s'' = ctrl (the (run [Tick (blind 1000)] init)))"
proof -
  have h1: "proposal (blind 1000) init = Inr (current_speed init, LowTemp 25)"
    by (simp add: eval_defs)
  have e: "tick (blind 1000) init = ([], Inr (the (run [Tick (blind 1000)] init)))"
    by (simp add: eval_defs)
  have c: "ctrl (the (run [Tick (blind 1000)] init)) = ctrl init"
    by (simp add: eval_defs)
  have h2: "proposal (blind 1001) (the (run [Tick (blind 1000)] init))
      = Inr (current_speed (the (run [Tick (blind 1000)] init)), LowTemp 25)"
    by (simp add: eval_defs)
  from equal_proposal_idle [OF h1] obtain s' where
    t: "tick (blind 1000) init = ([], Inr s')" and
    i: "\<forall>inp2 rsn2. proposal inp2 s' = Inr (current_speed s', rsn2) \<longrightarrow>
              (\<exists>s''. tick inp2 s' = ([], Inr s'') \<and> ctrl s'' = ctrl s')"
    by blast
  from t e have s': "s' = the (run [Tick (blind 1000)] init)"
    by (simp only: prod.inject sum.inject)
  from i [unfolded s'] h2
  have n: "\<exists>s''. tick (blind 1001) (the (run [Tick (blind 1000)] init)) = ([], Inr s'')
          \<and> ctrl s'' = ctrl (the (run [Tick (blind 1000)] init))"
    by blast
  show ?thesis
    by (rule conjI [OF h1 conjI [OF e conjI [OF c conjI [OF h2 n]]]])
qed

subsection \<open>C9: the delay timer while a decrease is pending\<close>

text \<open>
  Claim C9. While \<open>drop_delay_start\<close> is set: an iteration that proposes any speed
  below the current one before the delay has expired makes no call and leaves the four
  controller fields, \<open>drop_delay_start\<close> among them, unchanged; and an iteration
  changes \<open>drop_delay_start\<close> only by clearing it, and only when its proposal equals
  the current speed or when it applies a change.
\<close>

theorem pending_timer_kept:
  assumes "proposal inp s = Inr (target, rsn)" and "drop_delay_start s \<noteq> 0"
  shows "(target < current_speed s \<and> in_now inp - drop_delay_start s < DROP_DELAY \<longrightarrow>
            (\<exists>s'. tick inp s = ([], Inr s') \<and> ctrl s' = ctrl s))
       \<and> (\<forall>evs s'. tick inp s = (evs, Inr s') \<and> drop_delay_start s' \<noteq> drop_delay_start s \<longrightarrow>
            drop_delay_start s' = 0 \<and>
            (target = current_speed s \<or>
             (SetFanSpeed target \<in> set evs \<and> set_fan_speed (in_ipmi inp) target \<and>
              current_speed s' = target \<and> target \<noteq> current_speed s)))"
proof -
  from tick_via_proposal [OF assms(1)] obtain s1 where
    c: "ctrl s1 = ctrl s" and
    t: "tick inp s = (case apply_speed inp target rsn s1 of
                     (evs, Inl e) \<Rightarrow> (evs, Inl e)
                   | (evs, Inr s2) \<Rightarrow> (evs, Inr (s2\<lparr>spike_detected := False\<rparr>)))"
    by blast
  from c have eqs: "current_speed s1 = current_speed s" "drop_delay_start s1 = drop_delay_start s"
    "cooldown_end s1 = cooldown_end s" "last_trigger s1 = last_trigger s"
    by (simp_all add: ctrl_def)
  have first: "\<exists>s'. tick inp s = ([], Inr s') \<and> ctrl s' = ctrl s"
    if "target < current_speed s" "in_now inp - drop_delay_start s < DROP_DELAY"
  proof -
    have "apply_speed inp target rsn s1 = ([], Inr s1)"
      using that assms(2) eqs by (intro apply_speed_hold) simp_all
    with t c show ?thesis by (simp add: ctrl_def)
  qed
  have second: "drop_delay_start s' = 0 \<and>
            (target = current_speed s \<or>
             (SetFanSpeed target \<in> set evs \<and> set_fan_speed (in_ipmi inp) target \<and>
              current_speed s' = target \<and> target \<noteq> current_speed s))"
    if h: "tick inp s = (evs, Inr s')" "drop_delay_start s' \<noteq> drop_delay_start s" for evs s'
  proof -
    from h(1) t obtain s2 where a: "apply_speed inp target rsn s1 = (evs, Inr s2)"
      and s2: "s' = s2\<lparr>spike_detected := False\<rparr>"
      by (auto split: prod.splits sum.splits)
    from s2 h(2) eqs have "drop_delay_start s2 \<noteq> drop_delay_start s1" by simp
    from apply_speed_timer [OF a _ this] assms(2) eqs s2 show ?thesis by simp
  qed
  from first second show ?thesis by blast
qed

text \<open>
  C9 on two runs: the delay started at 1001 on a proposal of 25; at 1002 a small
  spike proposes 40, still below 60, and the timer stays at 1001; or at 1002 a spike
  proposes 60, the current speed, and the timer is cleared.
\<close>

theorem pending_timer_kept_witness:
  "proposal (blind 1002) (the (run [Sample 12, Tick (blind 1000), Tick (blind 1001), Sample 18] init))
     = Inr (40, SmallSpike 6)
   \<and> drop_delay_start (the (run [Sample 12, Tick (blind 1000), Tick (blind 1001), Sample 18] init)) = 1001
   \<and> 40 < current_speed (the (run [Sample 12, Tick (blind 1000), Tick (blind 1001), Sample 18] init))
   \<and> in_now (blind 1002)
        - drop_delay_start (the (run [Sample 12, Tick (blind 1000), Tick (blind 1001), Sample 18] init))
      < DROP_DELAY
   \<and> (\<exists>s'. tick (blind 1002) (the (run [Sample 12, Tick (blind 1000), Tick (blind 1001), Sample 18] init))
               = ([], Inr s')
          \<and> ctrl s' = ctrl (the (run [Sample 12, Tick (blind 1000), Tick (blind 1001), Sample 18] init)))
   \<and> proposal (blind 1002) (the (run [Sample 12, Tick (blind 1000), Tick (blind 1001), Sample 24] init))
     = Inr (60, ModerateSpike 12)
   \<and> drop_delay_start (the (run [Sample 12, Tick (blind 1000), Tick (blind 1001), Sample 24] init)) = 1001
   \<and> tick (blind 1002) (the (run [Sample 12, Tick (blind 1000), Tick (blind 1001), Sample 24] init))
     = ([], Inr (the (run [Sample 12, Tick (blind 1000), Tick (blind 1001), Sample 24, Tick (blind 1002)] init)))
   \<and> drop_delay_start
        (the (run [Sample 12, Tick (blind 1000), Tick (blind 1001), Sample 24, Tick (blind 1002)] init)) = 0"
proof -
  have h1: "proposal (blind 1002) (the (run [Sample 12, Tick (blind 1000), Tick (blind 1001), Sample 18] init))
     = Inr (40, SmallSpike 6)"
    by (simp add: eval_defs)
  have h2: "drop_delay_start (the (run [Sample 12, Tick (blind 1000), Tick (blind 1001), Sample 18] init)) = 1001"
    by (simp add: eval_defs)
  then have h2': "drop_delay_start (the (run [Sample 12, Tick (blind 1000), Tick (blind 1001), Sample 18] init)) \<noteq> 0"
    by simp
  have h3: "40 < current_speed (the (run [Sample 12, Tick (blind 1000), Tick (blind 1001), Sample 18] init))"
    by (simp add: eval_defs)
  have h4: "in_now (blind 1002)
        - drop_delay_start (the (run [Sample 12, Tick (blind 1000), Tick (blind 1001), Sample 18] init))
      < DROP_DELAY"
    unfolding h2 by (simp add: blind_def DROP_DELAY_def)
  have e1: "\<exists>s'. tick (blind 1002) (the (run [Sample 12, Tick (blind 1000), Tick (blind 1001), Sample 18] init))
               = ([], Inr s')
          \<and> ctrl s' = ctrl (the (run [Sample 12, Tick (blind 1000), Tick (blind 1001), Sample 18] init))"
    by (rule pending_timer_kept [OF h1 h2', THEN conjunct1, rule_format, OF conjI [OF h3 h4]])
  have k1: "proposal (blind 1002) (the (run [Sample 12, Tick (blind 1000), Tick (blind 1001), Sample 24] init))
     = Inr (60, ModerateSpike 12)"
    by (simp add: eval_defs)
  have k2: "drop_delay_start (the (run [Sample 12, Tick (blind 1000), Tick (blind 1001), Sample 24] init)) = 1001"
    by (simp add: eval_defs)
  then have k2': "drop_delay_start (the (run [Sample 12, Tick (blind 1000), Tick (blind 1001), Sample 24] init)) \<noteq> 0"
    by simp
  have k3: "tick (blind 1002) (the (run [Sample 12, Tick (blind 1000), Tick (blind 1001), Sample 24] init))
     = ([], Inr (the (run [Sample 12, Tick (blind 1000), Tick (blind 1001), Sample 24, Tick (blind 1002)] init)))"
    by (simp add: eval_defs)
  have k4: "drop_delay_start
        (the (run [Sample 12, Tick (blind 1000), Tick (blind 1001), Sample 24, Tick (blind 1002)] init))
      \<noteq> drop_delay_start (the (run [Sample 12, Tick (blind 1000), Tick (blind 1001), Sample 24] init))"
    by (simp add: eval_defs)
  have e2: "drop_delay_start
        (the (run [Sample 12, Tick (blind 1000), Tick (blind 1001), Sample 24, Tick (blind 1002)] init)) = 0"
    by (rule pending_timer_kept [OF k1 k2', THEN conjunct2, rule_format, OF conjI [OF k3 k4], THEN conjunct1])
  show ?thesis
    by (rule conjI [OF h1 conjI [OF h2 conjI [OF h3 conjI [OF h4 conjI [OF e1 conjI [OF k1
          conjI [OF k2 conjI [OF k3 e2]]]]]]]])
qed

subsection \<open>C10: the rate after a failed read\<close>

text \<open>
  Claim C10. After an iteration with a successful read, \<^verbatim>\<open>temp_rate\<close> holds the
  rate computed on that read; steps whose read fails keep it; and an iteration whose
  read fails computes its proposal from that rate, and from the maximum and the window
  of that read.
\<close>

theorem stale_rate_on_failed_read:
  assumes good: "get_sensor_data (in_sensor inp1) = Inr (Some temps)" "temps \<noteq> []"
      "tick inp1 s0 = (evs1, Inr s1)"
    and later: "run sts s1 = Some s" "\<forall>st \<in> set sts. failed_read st"
    and fails: "get_sensor_data (in_sensor inp) = Inr None"
  shows "temp_rate s1 = Some (if length (temp_window s1) \<ge> 5
            then real_of_int (max_temp s1 - min_list (drop (length (temp_window s1) - 5) (temp_window s1))) / 5
            else 0)
       \<and> temp_rate s = temp_rate s1
       \<and> proposal inp s = propose (spike_detected s) (spike_size s) (max_temp s1) (temp_rate s1)
                                  (length (temp_window s1))
       \<and> (\<forall>evs s'. tick inp s = (evs, Inr s') \<longrightarrow> temp_rate s' = temp_rate s1)"
proof -
  from good(3) have "snd (tick inp1 s0) = Inr s1" by simp
  from tick_temps [OF this] obtain x where
    x: "read_temps inp1 s0 = Inr x" "max_temp s1 = max_temp x" "temp_window s1 = temp_window x"
       "temp_rate s1 = temp_rate x"
    by blast
  from x(1) good(1,2) have "update_temps temps s0 = Inr x" by (simp add: read_temps_def)
  from update_temps_rate [OF this] x
  have a: "temp_rate s1 = Some (if length (temp_window s1) \<ge> 5
            then real_of_int (max_temp s1 - min_list (drop (length (temp_window s1) - 5) (temp_window s1))) / 5
            else 0)"
    by simp
  from failed_run_temps [OF later]
  have b: "temp_rate s = temp_rate s1" "max_temp s = max_temp s1" "temp_window s = temp_window s1"
    by simp_all
  from fails have rd: "read_temps inp s = Inr s" by (simp add: read_temps_def)
  with b have c: "proposal inp s = propose (spike_detected s) (spike_size s) (max_temp s1)
      (temp_rate s1) (length (temp_window s1))"
    by (simp add: proposal_def)
  have d: "temp_rate s' = temp_rate s1" if "tick inp s = (evs, Inr s')" for evs s'
  proof -
    from that have "snd (tick inp s) = Inr s'" by simp
    from tick_temps [OF this] rd b show ?thesis by simp
  qed
  from a b(1) c d show ?thesis by blast
qed

text \<open>
  C10 on a run: four reads of 20 degrees and one of 24 give the rate 0.8; two
  iterations later, both with a failed read, the proposal is still 80 for a fast
  rise, and the rate is kept.
\<close>

theorem stale_rate_on_failed_read_witness:
  "tick rise_read (the (run four_reads init))
     = (fst (tick rise_read (the (run four_reads init))),
        Inr (the (run (four_reads @ [Tick rise_read]) init)))
   \<and> run [Sample 3, Tick (blind 1005)] (the (run (four_reads @ [Tick rise_read]) init))
     = Some (the (run (four_reads @ [Tick rise_read, Sample 3, Tick (blind 1005)]) init))
   \<and> temp_rate (the (run (four_reads @ [Tick rise_read]) init)) = Some (4 / 5)
   \<and> temp_rate (the (run (four_reads @ [Tick rise_read, Sample 3, Tick (blind 1005)]) init))
     = temp_rate (the (run (four_reads @ [Tick rise_read]) init))
   \<and> proposal (blind 1006) (the (run (four_reads @ [Tick rise_read, Sample 3, Tick (blind 1005)]) init))
     = Inr (80, FastRise (4 / 5))
   \<and> tick (blind 1006) (the (run (four_reads @ [Tick rise_read, Sample 3, Tick (blind 1005)]) init))
     = ([], Inr (the (run (four_reads @ [Tick rise_read, Sample 3, Tick (blind 1005), Tick (blind 1006)]) init)))
   \<and> temp_rate (the (run (four_reads @ [Tick rise_read, Sample 3, Tick (blind 1005), Tick (blind 1006)]) init))
     = temp_rate (the (run (four_reads @ [Tick rise_read]) init))"
proof -
  have g1: "get_sensor_data (in_sensor rise_read)
     = Inr (Some [(''inlet'', 18), (''exhaust'', 24), (''cpu1'', 19), (''cpu2'', 19)])"
    by (simp add: rise_read_def seeing_def table_24)
  have g2: "[(''inlet'', 18::int), (''exhaust'', 24), (''cpu1'', 19), (''cpu2'', 19)] \<noteq> []"
    by simp
  have g3: "tick rise_read (the (run four_reads init))
     = (fst (tick rise_read (the (run four_reads init))),
        Inr (the (run (four_reads @ [Tick rise_read]) init)))"
    by (simp add: eval_defs four_reads_def rise_read_def table_20 table_24)
  have l1: "run [Sample 3, Tick (blind 1005)] (the (run (four_reads @ [Tick rise_read]) init))
     = Some (the (run (four_reads @ [Tick rise_read, Sample 3, Tick (blind 1005)]) init))"
    by (simp add: eval_defs four_reads_def rise_read_def table_20 table_24)
  have l2: "\<forall>st \<in> set [Sample 3, Tick (blind 1005)]. failed_read st"
    by (simp add: blind_def sensor_failed)
  have f: "get_sensor_data (in_sensor (blind 1006)) = Inr None"
    by (simp add: blind_def sensor_failed)
  have r: "temp_rate (the (run (four_reads @ [Tick rise_read]) init)) = Some (4 / 5)"
    by (simp add: eval_defs four_reads_def rise_read_def table_20 table_24)
  have p: "proposal (blind 1006) (the (run (four_reads @ [Tick rise_read, Sample 3, Tick (blind 1005)]) init))
     = Inr (80, FastRise (4 / 5))"
    by (simp add: eval_defs four_reads_def rise_read_def table_20 table_24)
  have q: "tick (blind 1006) (the (run (four_reads @ [Tick rise_read, Sample 3, Tick (blind 1005)]) init))
     = ([], Inr (the (run (four_reads @ [Tick rise_read, Sample 3, Tick (blind 1005), Tick (blind 1006)]) init)))"
    by (simp add: eval_defs four_reads_def rise_read_def table_20 table_24)
  note inst = stale_rate_on_failed_read [OF g1 g2 g3 l1 l2 f]
  have k: "temp_rate (the (run (four_reads @ [Tick rise_read, Sample 3, Tick (blind 1005)]) init))
     = temp_rate (the (run (four_reads @ [Tick rise_read]) init))"
    by (rule inst [THEN conjunct2, THEN conjunct1])
  have m: "temp_rate (the (run (four_reads @ [Tick rise_read, Sample 3, Tick (blind 1005), Tick (blind 1006)]) init))
     = temp_rate (the (run (four_reads @ [Tick rise_read]) init))"
    by (rule inst [THEN conjunct2, THEN conjunct2, THEN conjunct2, rule_format, OF q])
  show ?thesis
    by (rule conjI [OF g3 conjI [OF l1 conjI [OF r conjI [OF k conjI [OF p conjI [OF q m]]]]]])
qed

end
